theory Spec2Isabelle
  imports Complex_Main "HOL-Library.Multiset"
begin

section \<open>Python values\<close>

text \<open>
  Python's \<open>str\<close> is modelled by \<open>string\<close>. A character outside ASCII stands as the
  bytes of its UTF-8 encoding; the operations the two modules apply to strings (equality,
  membership in a list, splitting at \<open>"."\<close>, deleting what is not in \<open>[0-9]\<close>)
  give the same result on the encoding as on the code points. The conversion \<open>int\<close>
  reads code points; its model decodes the bytes first.

  A cell of the feed spreadsheet, as \<open>watch.get(key)\<close> returns it from the table
  that \<open>download_stock\<close> reads: a string, an integer, a floating-point number, the
  floating-point value \<open>nan\<close> (a cell holding a spreadsheet error), or \<open>None\<close> when the
  key is absent. A floating-point cell carries its value and the text that \<open>str\<close> gives
  for it (\<open>"2.5"\<close>, \<open>"5.0"\<close>, \<open>"1e+16"\<close>); such a text always holds a point, an
  exponent or a letter. Boolean and date cells and the infinities are not modelled.
\<close>

datatype cell = CStr string | CInt int | CFloat real string | CNaN | CNone

text \<open>The exception classes that the two modules can meet; \<open>OtherException\<close> stands
  for any further subclass of \<open>Exception\<close>. \<open>ConnectTimeout\<close> is a subclass of
  \<open>ConnectionError\<close> in the HTTP library, \<open>EnvError\<close> is what the environment reader
  raises, and \<open>KeyboardInterrupt\<close> derives from \<open>BaseException\<close> only.\<close>

datatype exn =
    ReadTimeout | ConnectTimeout | ConnectionError | HTTPError
  | ValueError | TypeError | AttributeError | IndexError | EnvError | OtherException
  | KeyboardInterrupt

definition is_digit :: "char \<Rightarrow> bool" where
  "is_digit c = (c \<in> set ''0123456789'')"

definition digit_val :: "char \<Rightarrow> int" where
  "digit_val c = of_char c - 48"

definition digit_char :: "nat \<Rightarrow> char" where
  "digit_char d = ''0123456789'' ! d"

function str_nat :: "nat \<Rightarrow> string" where
  "str_nat n = (if n < 10 then [digit_char n] else str_nat (n div 10) @ [digit_char (n mod 10)])"
  by pat_completeness auto
termination
  by (relation "measure id") auto

declare str_nat.simps [simp del]

text \<open>\<open>str(x)\<close> on a cell.\<close>

fun py_str :: "cell \<Rightarrow> string" where
  "py_str (CStr s) = s"
| "py_str (CInt i) = (if i < 0 then CHR ''-'' # str_nat (nat (- i)) else str_nat (nat i))"
| "py_str (CFloat x repr) = repr"
| "py_str CNaN = ''nan''"
| "py_str CNone = ''None''"

text \<open>
  \<open>int(s)\<close> on a string, as CPython 3.11 computes it with the Unicode tables of that
  release (version 14.0) and the default limit of 4300 digits.

  First the string is brought to ASCII: a string that is ASCII already stays as it is;
  otherwise a character below 128 stays, a Unicode space becomes a blank, a Unicode decimal
  digit becomes the ASCII digit of its value, and any other character becomes \<open>"?"\<close>,
  which no number contains. \<open>unicode_spaces\<close> lists the spaces above 127, and
  \<open>decimal_zeros\<close> the digits zero above 127; the digits one to nine of a script follow
  its zero. The strings hold well-formed UTF-8, which \<open>to_ascii\<close> decodes.
\<close>

definition unicode_spaces :: "nat list" where
  "unicode_spaces =
    [0x85, 0xA0, 0x1680, 0x2000, 0x2001, 0x2002, 0x2003, 0x2004, 0x2005, 0x2006, 0x2007,
     0x2008, 0x2009, 0x200A, 0x2028, 0x2029, 0x202F, 0x205F, 0x3000]"

definition decimal_zeros :: "nat list" where
  "decimal_zeros =
    [0x660, 0x6F0, 0x7C0, 0x966, 0x9E6, 0xA66, 0xAE6, 0xB66, 0xBE6, 0xC66, 0xCE6, 0xD66,
     0xDE6, 0xE50, 0xED0, 0xF20, 0x1040, 0x1090, 0x17E0, 0x1810, 0x1946, 0x19D0, 0x1A80,
     0x1A90, 0x1B50, 0x1BB0, 0x1C40, 0x1C50, 0xA620, 0xA8D0, 0xA900, 0xA9D0, 0xA9F0,
     0xAA50, 0xABF0, 0xFF10, 0x104A0, 0x10D30, 0x11066, 0x110F0, 0x11136, 0x111D0, 0x112F0,
     0x11450, 0x114D0, 0x11650, 0x116C0, 0x11730, 0x118E0, 0x11950, 0x11C50, 0x11D50,
     0x11DA0, 0x16A60, 0x16AC0, 0x16B50, 0x1D7CE, 0x1D7D8, 0x1D7E2, 0x1D7EC, 0x1D7F6,
     0x1E140, 0x1E2F0, 0x1E950, 0x1FBF0]"

definition decimal_of :: "nat \<Rightarrow> nat option" where
  "decimal_of cp =
     (case filter (\<lambda>z. z \<le> cp \<and> cp < z + 10) decimal_zeros of
        [] \<Rightarrow> None
      | z # _ \<Rightarrow> Some (cp - z))"

definition ascii_of :: "nat \<Rightarrow> char" where
  "ascii_of cp =
     (if cp \<in> set unicode_spaces then CHR '' ''
      else case decimal_of cp of Some d \<Rightarrow> digit_char d | None \<Rightarrow> CHR ''?'')"

text \<open>The number of bytes that follow the first byte of a character in UTF-8, and the
  code point that the bytes of one character encode.\<close>

definition utf8_tail :: "char \<Rightarrow> nat" where
  "utf8_tail b =
     (if (of_char b :: nat) < 0xE0 then 1 else if (of_char b :: nat) < 0xF0 then 2 else 3)"

definition code_point :: "char \<Rightarrow> string \<Rightarrow> nat" where
  "code_point b bs =
     foldl (\<lambda>cp c. 64 * cp + of_char c mod 64)
       (of_char b mod (if (of_char b :: nat) < 0xE0 then 32
                       else if (of_char b :: nat) < 0xF0 then 16 else 8))
       bs"

function to_ascii :: "string \<Rightarrow> string" where
  "to_ascii [] = []"
| "to_ascii (b # bs) =
     (if (of_char b :: nat) < 0x80 then b # to_ascii bs
      else ascii_of (code_point b (take (utf8_tail b) bs)) # to_ascii (drop (utf8_tail b) bs))"
  by pat_completeness auto
termination
  by (relation "measure length") auto

text \<open>
  Then the number is read: the whitespace of C (blank, tab, line feed, vertical tab, form
  feed, carriage return) is dropped at both ends, one sign is allowed, then decimal
  digits, where single underscores may stand between digits. More than 4300 digits are
  refused; leading zeros count, underscores do not. Every refusal is a \<open>ValueError\<close>.
\<close>

definition is_space :: "char \<Rightarrow> bool" where
  "is_space c = (c \<in> set [CHR 0x09, CHR 0x0A, CHR 0x0B, CHR 0x0C, CHR 0x0D, CHR 0x20])"

definition strip :: "string \<Rightarrow> string" where
  "strip s = rev (dropWhile is_space (rev (dropWhile is_space s)))"

fun digits_ok :: "string \<Rightarrow> bool" where
  "digits_ok [] = False"
| "digits_ok [c] = is_digit c"
| "digits_ok (c # d # cs) =
     (if is_digit c then (if d = CHR ''_'' then digits_ok cs else digits_ok (d # cs))
      else False)"

definition digits_value :: "string \<Rightarrow> int" where
  "digits_value s = foldl (\<lambda>a c. 10 * a + digit_val c) 0 (filter is_digit s)"

definition max_str_digits :: nat where
  "max_str_digits = 4300"

definition int_of_digits :: "string \<Rightarrow> exn + int" where
  "int_of_digits s =
     (if digits_ok s \<and> length (filter is_digit s) \<le> max_str_digits then Inr (digits_value s)
      else Inl ValueError)"

definition int_of_string :: "string \<Rightarrow> exn + int" where
  "int_of_string s =
     (case strip (to_ascii s) of
        [] \<Rightarrow> Inl ValueError
      | c # cs \<Rightarrow>
          if c = CHR ''-'' then map_sum id uminus (int_of_digits cs)
          else if c = CHR ''+'' then int_of_digits cs
          else int_of_digits (c # cs))"

text \<open>\<open>int(x)\<close> on a cell. A floating-point number is cut towards zero, without any
  exception; \<open>nan\<close> is refused with a \<open>ValueError\<close> and \<open>None\<close> with a \<open>TypeError\<close>.\<close>

definition trunc :: "real \<Rightarrow> int" where
  "trunc x = (if x < 0 then \<lceil>x\<rceil> else \<lfloor>x\<rfloor>)"

fun py_int :: "cell \<Rightarrow> exn + int" where
  "py_int (CStr s) = int_of_string s"
| "py_int (CInt i) = Inr i"
| "py_int (CFloat x repr) = Inr (trunc x)"
| "py_int CNaN = Inl ValueError"
| "py_int CNone = Inl TypeError"

section \<open>seller.py: price_conversion\<close>

text \<open>\<open>s.split(sep)\<close> for a separator of one character: the pieces between the
  occurrences of \<open>sep\<close>, never an empty list.\<close>

fun py_split :: "char \<Rightarrow> string \<Rightarrow> string list" where
  "py_split sep [] = [[]]"
| "py_split sep (c # cs) =
     (if c = sep then [] # py_split sep cs
      else (case py_split sep cs of
              [] \<Rightarrow> [[c]]
            | p # ps \<Rightarrow> (c # p) # ps))"

text \<open>\<open>re.sub("[^0-9]", "", s)\<close>: every character outside the class \<open>0-9\<close> is
  replaced by the empty string.\<close>

definition re_sub_non_digits :: "string \<Rightarrow> string" where
  "re_sub_non_digits s = concat (map (\<lambda>c. if is_digit c then [c] else []) s)"

text \<open>\<open>price.split(".")[0]\<close>; index 0 of the result of \<open>split\<close> always exists.
  A price that is not a string has no \<open>split\<close> attribute.\<close>

fun price_conversion :: "cell \<Rightarrow> exn + string" where
  "price_conversion (CStr price) =
     (case py_split (CHR ''.'') price of
        [] \<Rightarrow> Inl IndexError
      | p # _ \<Rightarrow> Inr (re_sub_non_digits p))"
| "price_conversion (CInt i) = Inl AttributeError"
| "price_conversion (CFloat x repr) = Inl AttributeError"
| "price_conversion CNaN = Inl AttributeError"
| "price_conversion CNone = Inl AttributeError"

section \<open>seller.py: divide\<close>

text \<open>\<open>range(i, stop, step)\<close> for a step other than zero, as the list of its values.\<close>

function py_range :: "int \<Rightarrow> int \<Rightarrow> int \<Rightarrow> int list" where
  "py_range i stop step =
     (if 0 < step \<and> i < stop then i # py_range (i + step) stop step
      else if step < 0 \<and> stop < i then i # py_range (i + step) stop step
      else [])"
  by pat_completeness auto
termination
  by (relation "measure (\<lambda>(i, stop, step). nat (if 0 < step then stop - i else i - stop))") auto

declare py_range.simps [simp del]

text \<open>\<open>lst[i:j]\<close>: a negative bound counts from the end, and both bounds are clamped
  to the list.\<close>

definition slice_bound :: "nat \<Rightarrow> int \<Rightarrow> nat" where
  "slice_bound len k = (if k < 0 then nat (max 0 (k + int len)) else min (nat k) len)"

definition py_slice :: "'a list \<Rightarrow> int \<Rightarrow> int \<Rightarrow> 'a list" where
  "py_slice lst i j =
     (let a = slice_bound (length lst) i; b = slice_bound (length lst) j
      in take (b - a) (drop a lst))"

text \<open>The generator \<open>divide\<close> (named \<open>divide_lst\<close> here, apart from the
  division of HOL), as the list of the chunks it yields.
  \<open>range\<close> refuses a step of zero when the loop is entered, before any chunk.\<close>

definition divide_lst :: "'a list \<Rightarrow> int \<Rightarrow> exn + 'a list list" where
  "divide_lst lst n =
     (if n = 0 then Inl ValueError
      else Inr (map (\<lambda>i. py_slice lst i (i + n)) (py_range 0 (int (length lst)) n)))"

text \<open>What section 4.2 of the specification describes: contiguous slices of at most
  \<open>m\<close> elements, in the original order.\<close>

function chunks_of :: "nat \<Rightarrow> 'a list \<Rightarrow> 'a list list" where
  "chunks_of m xs = (if m = 0 \<or> xs = [] then [] else take m xs # chunks_of m (drop m xs))"
  by pat_completeness auto
termination
  by (relation "measure (\<lambda>(m, xs). length xs)") auto

declare chunks_of.simps [simp del]

section \<open>The feed and the updates\<close>

text \<open>A record of the feed. Its three keys are Cyrillic words in the source; the fields
  carry their transliterations: \<open>kod\<close> is the product code, \<open>kolichestvo\<close> the quantity
  and \<open>tsena\<close> the price.\<close>

record watch =
  kod :: cell
  kolichestvo :: cell
  tsena :: cell

text \<open>The dictionaries that seller.py builds.\<close>

record stock_item =
  offer_id :: string
  stock :: int

record price_item =
  auto_action_enabled :: string
  currency_code :: string
  price_offer_id :: string
  old_price :: string
  price :: string

text \<open>The dictionaries that market.py builds; \<open>sku_items\<close> is the key \<open>"items"\<close>.\<close>

record market_item =
  item_count :: int
  item_type :: string
  updatedAt :: string

record market_stock =
  sku :: string
  warehouseId :: string
  sku_items :: "market_item list"

section \<open>seller.py: create_stocks and create_prices\<close>

text \<open>
  The first loop of \<open>create_stocks\<close>. The list \<open>offer_ids\<close> is the caller's list,
  changed in place by \<open>offer_ids.remove\<close>, which deletes the first occurrence; the loop
  returns it with the updates. An exception leaves the function at once.
\<close>

fun stocks_loop ::
  "watch list \<Rightarrow> string list \<Rightarrow> stock_item list \<Rightarrow> exn + (stock_item list \<times> string list)"
where
  "stocks_loop [] offer_ids stocks = Inr (stocks, offer_ids)"
| "stocks_loop (watch # rest) offer_ids stocks =
     (if py_str (kod watch) \<in> set offer_ids then
        (let count = py_str (kolichestvo watch) in
         case (if count = ''>10'' then Inr 100
               else if count = ''1'' then Inr 0
               else py_int (kolichestvo watch)) of
           Inl e \<Rightarrow> Inl e
         | Inr n \<Rightarrow>
             stocks_loop rest (remove1 (py_str (kod watch)) offer_ids)
               (stocks @ [\<lparr>offer_id = py_str (kod watch), stock = n\<rparr>]))
      else stocks_loop rest offer_ids stocks)"

text \<open>\<open>create_stocks\<close> returns the list of updates; the second component is the
  caller's \<open>offer_ids\<close> as the call leaves it.\<close>

definition create_stocks ::
  "watch list \<Rightarrow> string list \<Rightarrow> exn + (stock_item list \<times> string list)"
where
  "create_stocks watch_remnants offer_ids =
     (case stocks_loop watch_remnants offer_ids [] of
        Inl e \<Rightarrow> Inl e
      | Inr (stocks, offer_ids') \<Rightarrow>
          Inr (stocks @ map (\<lambda>x. \<lparr>offer_id = x, stock = 0\<rparr>) offer_ids',
               offer_ids'))"

fun prices_loop :: "watch list \<Rightarrow> string list \<Rightarrow> price_item list \<Rightarrow> exn + price_item list" where
  "prices_loop [] offer_ids prices = Inr prices"
| "prices_loop (watch # rest) offer_ids prices =
     (if py_str (kod watch) \<in> set offer_ids then
        (case price_conversion (tsena watch) of
           Inl e \<Rightarrow> Inl e
         | Inr p \<Rightarrow>
             prices_loop rest offer_ids
               (prices @ [\<lparr>auto_action_enabled = ''UNKNOWN'', currency_code = ''RUB'',
                           price_offer_id = py_str (kod watch), old_price = ''0'',
                           price = p\<rparr>]))
      else prices_loop rest offer_ids prices)"

definition create_prices :: "watch list \<Rightarrow> string list \<Rightarrow> exn + price_item list" where
  "create_prices watch_remnants offer_ids = prices_loop watch_remnants offer_ids []"

section \<open>market.py: create_stocks\<close>

text \<open>\<open>date\<close> is the reading of the clock that the function takes when it starts.\<close>

fun market_stocks_loop ::
  "string \<Rightarrow> string \<Rightarrow> watch list \<Rightarrow> string list \<Rightarrow> market_stock list
     \<Rightarrow> exn + (market_stock list \<times> string list)"
where
  "market_stocks_loop warehouse_id date [] offer_ids stocks = Inr (stocks, offer_ids)"
| "market_stocks_loop warehouse_id date (watch # rest) offer_ids stocks =
     (if py_str (kod watch) \<in> set offer_ids then
        (let count = py_str (kolichestvo watch) in
         case (if count = ''>10'' then Inr 100
               else if count = ''1'' then Inr 0
               else py_int (kolichestvo watch)) of
           Inl e \<Rightarrow> Inl e
         | Inr n \<Rightarrow>
             market_stocks_loop warehouse_id date rest (remove1 (py_str (kod watch)) offer_ids)
               (stocks @ [\<lparr>sku = py_str (kod watch), warehouseId = warehouse_id,
                           sku_items = [\<lparr>item_count = n, item_type = ''FIT'',
                                          updatedAt = date\<rparr>]\<rparr>]))
      else market_stocks_loop warehouse_id date rest offer_ids stocks)"

definition market_create_stocks ::
  "string \<Rightarrow> watch list \<Rightarrow> string list \<Rightarrow> string \<Rightarrow> exn + (market_stock list \<times> string list)"
where
  "market_create_stocks date watch_remnants offer_ids warehouse_id =
     (case market_stocks_loop warehouse_id date watch_remnants offer_ids [] of
        Inl e \<Rightarrow> Inl e
      | Inr (stocks, offer_ids') \<Rightarrow>
          Inr (stocks @ map (\<lambda>x. \<lparr>sku = x, warehouseId = warehouse_id,
                                          sku_items = [\<lparr>item_count = 0, item_type = ''FIT'',
                                                         updatedAt = date\<rparr>]\<rparr>) offer_ids',
               offer_ids'))"

section \<open>The rules of the specification\<close>

text \<open>The quantity rule of section 3 of the specification: \<open>">10"\<close> gives 100,
  \<open>"1"\<close> gives 0, anything else its parsed integer value. \<open>codes\<close> lists the codes of
  the feed as \<open>create_stocks\<close> and \<open>create_prices\<close> compare them, and \<open>to_market\<close>
  is the update of market.py that corresponds to an update of seller.py.\<close>

definition quantity_rule :: "cell \<Rightarrow> exn + int" where
  "quantity_rule q =
     (if py_str q = ''>10'' then Inr 100
      else if py_str q = ''1'' then Inr 0
      else py_int q)"

text \<open>What "the parsed integer value of a string" means: the string is an integer
  literal. \<open>join_groups\<close> puts single underscores between groups of digits,
  \<open>decimal\<close> is the value of a row of digits in base ten, and \<open>int_literal s v\<close> says
  that \<open>s\<close> is blanks, an optional sign, at least one group of digits and at most 4300
  digits in all, blanks, and that \<open>v\<close> is the signed value of the digits.\<close>

fun join_groups :: "string list \<Rightarrow> string" where
  "join_groups [] = []"
| "join_groups [g] = g"
| "join_groups (g # h # gs) = g @ CHR ''_'' # join_groups (h # gs)"

definition decimal :: "string \<Rightarrow> int" where
  "decimal ds = (\<Sum>i<length ds. digit_val (ds ! i) * 10 ^ (length ds - Suc i))"

definition int_literal :: "string \<Rightarrow> int \<Rightarrow> bool" where
  "int_literal s v =
     (\<exists>before sgn groups after.
        s = before @ sgn @ join_groups groups @ after
      \<and> list_all is_space before \<and> list_all is_space after
      \<and> (sgn = [] \<or> sgn = ''+'' \<or> sgn = ''-'')
      \<and> groups \<noteq> [] \<and> list_all (\<lambda>g. g \<noteq> [] \<and> list_all is_digit g) groups
      \<and> length (concat groups) \<le> 4300
      \<and> v = (if sgn = ''-'' then - decimal (concat groups) else decimal (concat groups)))"

definition codes :: "watch list \<Rightarrow> string list" where
  "codes watch_remnants = map (\<lambda>w. py_str (kod w)) watch_remnants"

definition to_market :: "string \<Rightarrow> string \<Rightarrow> stock_item \<Rightarrow> market_stock" where
  "to_market warehouse_id date s =
     \<lparr>sku = offer_id s, warehouseId = warehouse_id,
      sku_items = [\<lparr>item_count = stock s, item_type = ''FIT'', updatedAt = date\<rparr>]\<rparr>"

text \<open>\<open>with_date\<close> replaces the time stamp of an update of market.py.\<close>

definition with_date :: "string \<Rightarrow> market_stock \<Rightarrow> market_stock" where
  "with_date date st = st\<lparr>sku_items := map (\<lambda>i. i\<lparr>updatedAt := date\<rparr>) (sku_items st)\<rparr>"

text \<open>The feed of the reconciliation example of the specification, with a price, and
  three more feed records for examples.\<close>

definition watch_a5 :: watch where
  "watch_a5 = \<lparr>kod = CStr ''a'', kolichestvo = CStr ''5'', tsena = CNone\<rparr>"

definition watch_b_bad :: watch where
  "watch_b_bad = \<lparr>kod = CStr ''b'', kolichestvo = CStr ''many'', tsena = CNone\<rparr>"

definition watch_a_bad :: watch where
  "watch_a_bad = \<lparr>kod = CStr ''a'', kolichestvo = CStr ''many'', tsena = CNone\<rparr>"

text \<open>The text 42 in Arabic-Indic digits (code points \<open>0x664\<close> and \<open>0x662\<close>).\<close>

definition arabic_42 :: string where
  "arabic_42 = [CHR 0xD9, CHR 0xA4, CHR 0xD9, CHR 0xA2]"

definition watch_a5_priced :: watch where
  "watch_a5_priced = \<lparr>kod = CStr ''a'', kolichestvo = CStr ''5'', tsena = CStr ''10''\<rparr>"

definition feed_123 :: "watch list" where
  "feed_123 = [\<lparr>kod = CInt 123, kolichestvo = CInt 5, tsena = CStr ''5'990.00''\<rparr>]"

section \<open>The marketplaces, the feed source and a run\<close>

text \<open>What the listing calls return. A product of marketplace B (seller.py) carries the
  key \<open>"offer_id"\<close>; a page carries \<open>"items"\<close>, \<open>"total"\<close> and \<open>"last_id"\<close>.
  An entry of marketplace A (market.py) carries \<open>offer.shopSku\<close>; a page carries
  \<open>"offerMappingEntries"\<close> and \<open>paging.nextPageToken\<close>, which may be absent.\<close>

record product =
  product_offer_id :: string

record seller_page =
  page_items :: "product list"
  page_total :: int
  page_last_id :: string

record offer_entry =
  shopSku :: string

record market_page =
  offerMappingEntries :: "offer_entry list"
  nextPageToken :: "string option"

text \<open>The run of a module is followed in a state: the outside world \<open>'w\<close>, the
  batches sent to the update endpoints so far, in order, and what was printed. A printed
  line is recorded as the \<open>print\<close> statement that wrote it: \<open>Timeout_line\<close> is the fixed
  timeout message of the first \<open>except\<close> clause, \<open>Connection_line e\<close> is the text of
  \<open>e\<close> followed by the connection label, \<open>Error2_line e\<close> the text of \<open>e\<close> followed
  by \<open>ERROR_2\<close>.\<close>

datatype request =
    Update_stocks "stock_item list"
  | Update_price "price_item list"
  | Market_update_stocks "market_stock list"

datatype printed = Timeout_line | Connection_line exn | Error2_line exn

record 'w run_state =
  world :: 'w
  requests :: "request list"
  stdout :: "printed list"

text \<open>What lies outside the two modules: the process environment, the download and
  parsing of the feed (the body of \<open>download_stock\<close>), the HTTP calls of
  \<open>get_product_list\<close>, \<open>update_stocks\<close> and \<open>update_price\<close> with
  \<open>raise_for_status\<close>, and the clock. Each call answers with a value or an exception and
  may change the world.\<close>

record 'w services =
  environ :: "string \<Rightarrow> string option"
  feed_download :: "'w \<Rightarrow> (exn + watch list) \<times> 'w"
  seller_list :: "string \<Rightarrow> string \<Rightarrow> string \<Rightarrow> 'w \<Rightarrow> (exn + seller_page) \<times> 'w"
  seller_stocks :: "stock_item list \<Rightarrow> string \<Rightarrow> string \<Rightarrow> 'w \<Rightarrow> (exn + unit) \<times> 'w"
  seller_prices :: "price_item list \<Rightarrow> string \<Rightarrow> string \<Rightarrow> 'w \<Rightarrow> (exn + unit) \<times> 'w"
  market_list :: "string \<Rightarrow> string \<Rightarrow> string \<Rightarrow> 'w \<Rightarrow> (exn + market_page) \<times> 'w"
  market_stocks :: "market_stock list \<Rightarrow> string \<Rightarrow> string \<Rightarrow> 'w \<Rightarrow> (exn + unit) \<times> 'w"
  utcnow :: "'w \<Rightarrow> string \<times> 'w"

text \<open>A piece of a run either does not return (\<open>None\<close>), or ends with an exception
  or a value in a new state. \<open>then_do\<close> is sequencing: an exception skips what follows.
  \<open>for_each\<close> is a \<open>for\<close> loop over a list whose body is a call.\<close>

type_synonym ('w, 'a) action = "'w run_state \<Rightarrow> ((exn + 'a) \<times> 'w run_state) option"

definition then_do :: "('w, 'a) action \<Rightarrow> ('a \<Rightarrow> ('w, 'b) action) \<Rightarrow> ('w, 'b) action" where
  "then_do m f s =
     (case m s of
        None \<Rightarrow> None
      | Some (Inl e, s') \<Rightarrow> Some (Inl e, s')
      | Some (Inr x, s') \<Rightarrow> f x s')"

definition result :: "exn + 'a \<Rightarrow> ('w, 'a) action" where
  "result r s = Some (r, s)"

fun for_each :: "('a \<Rightarrow> ('w, unit) action) \<Rightarrow> 'a list \<Rightarrow> ('w, unit) action" where
  "for_each f [] s = Some (Inr (), s)"
| "for_each f (x # xs) s =
     (case f x s of
        None \<Rightarrow> None
      | Some (Inl e, s') \<Rightarrow> Some (Inl e, s')
      | Some (Inr u, s') \<Rightarrow> for_each f xs s')"

subsection \<open>seller.py\<close>

definition get_product_list ::
  "'w services \<Rightarrow> string \<Rightarrow> string \<Rightarrow> string \<Rightarrow> 'w run_state
     \<Rightarrow> (exn + seller_page) \<times> 'w run_state"
where
  "get_product_list sv last_id client_id seller_token s =
     (case seller_list sv last_id client_id seller_token (world s) of
        (r, w) \<Rightarrow> (r, s\<lparr>world := w\<rparr>))"

definition update_price ::
  "'w services \<Rightarrow> price_item list \<Rightarrow> string \<Rightarrow> string \<Rightarrow> ('w, unit) action"
where
  "update_price sv prices client_id seller_token s =
     (case seller_prices sv prices client_id seller_token (world s) of
        (r, w) \<Rightarrow> Some (r, s\<lparr>world := w, requests := requests s @ [Update_price prices]\<rparr>))"

definition update_stocks ::
  "'w services \<Rightarrow> stock_item list \<Rightarrow> string \<Rightarrow> string \<Rightarrow> ('w, unit) action"
where
  "update_stocks sv stocks client_id seller_token s =
     (case seller_stocks sv stocks client_id seller_token (world s) of
        (r, w) \<Rightarrow> Some (r, s\<lparr>world := w, requests := requests s @ [Update_stocks stocks]\<rparr>))"

definition download_stock :: "'w services \<Rightarrow> ('w, watch list) action" where
  "download_stock sv s =
     (case feed_download sv (world s) of (r, w) \<Rightarrow> Some (r, s\<lparr>world := w\<rparr>))"

text \<open>The \<open>while True\<close> loop of \<open>get_offer_ids\<close>: it may run forever.\<close>

partial_function (option) product_list_loop ::
  "'w services \<Rightarrow> string \<Rightarrow> string \<Rightarrow> string \<Rightarrow> product list \<Rightarrow> 'w run_state
     \<Rightarrow> ((exn + product list) \<times> 'w run_state) option"
where
  "product_list_loop sv client_id seller_token last_id product_list s =
     (case get_product_list sv last_id client_id seller_token s of
        (Inl e, s') \<Rightarrow> Some (Inl e, s')
      | (Inr some_prod, s') \<Rightarrow>
          (let product_list' = product_list @ page_items some_prod in
           if page_total some_prod = int (length product_list') then Some (Inr product_list', s')
           else product_list_loop sv client_id seller_token (page_last_id some_prod)
                  product_list' s'))"

declare product_list_loop.simps [code]

definition get_offer_ids :: "'w services \<Rightarrow> string \<Rightarrow> string \<Rightarrow> ('w, string list) action" where
  "get_offer_ids sv client_id seller_token =
     then_do (product_list_loop sv client_id seller_token [] [])
       (\<lambda>product_list. result (Inr (map product_offer_id product_list)))"

text \<open>\<open>upload_prices\<close> and \<open>upload_stocks\<close> are \<open>async\<close> functions with no
  \<open>await\<close> in them; these are their bodies, as they run when the coroutine is run.\<close>

definition upload_prices ::
  "'w services \<Rightarrow> watch list \<Rightarrow> string \<Rightarrow> string \<Rightarrow> ('w, price_item list) action"
where
  "upload_prices sv watch_remnants client_id seller_token =
     then_do (get_offer_ids sv client_id seller_token) (\<lambda>offer_ids.
     then_do (result (create_prices watch_remnants offer_ids)) (\<lambda>prices.
     then_do (result (divide_lst prices 1000)) (\<lambda>batches.
     then_do (for_each (\<lambda>some_price. update_price sv some_price client_id seller_token) batches)
       (\<lambda>_. result (Inr prices)))))"

definition upload_stocks ::
  "'w services \<Rightarrow> watch list \<Rightarrow> string \<Rightarrow> string
     \<Rightarrow> ('w, stock_item list \<times> stock_item list) action"
where
  "upload_stocks sv watch_remnants client_id seller_token =
     then_do (get_offer_ids sv client_id seller_token) (\<lambda>offer_ids.
     then_do (result (create_stocks watch_remnants offer_ids)) (\<lambda>(stocks, offer_ids').
     then_do (result (divide_lst stocks 100)) (\<lambda>batches.
     then_do (for_each (\<lambda>some_stock. update_stocks sv some_stock client_id seller_token) batches)
       (\<lambda>_. result (Inr (filter (\<lambda>x. stock x \<noteq> 0) stocks, stocks))))))"

text \<open>The body of the \<open>try\<close> statement of \<open>main\<close>. \<open>create_prices\<close> receives the
  list \<open>offer_ids\<close> as \<open>create_stocks\<close> left it.\<close>

definition main_try :: "'w services \<Rightarrow> string \<Rightarrow> string \<Rightarrow> ('w, unit) action" where
  "main_try sv client_id seller_token =
     then_do (get_offer_ids sv client_id seller_token) (\<lambda>offer_ids.
     then_do (download_stock sv) (\<lambda>watch_remnants.
     then_do (result (create_stocks watch_remnants offer_ids)) (\<lambda>(stocks, offer_ids').
     then_do (result (divide_lst stocks 100)) (\<lambda>batches.
     then_do (for_each (\<lambda>some_stock. update_stocks sv some_stock client_id seller_token) batches)
       (\<lambda>_.
     then_do (result (create_prices watch_remnants offer_ids')) (\<lambda>prices.
     then_do (result (divide_lst prices 900)) (\<lambda>batches'.
     for_each (\<lambda>some_price. update_price sv some_price client_id seller_token) batches')))))))"

text \<open>How \<open>main\<close> ends: it returns, or an exception leaves it. The three \<open>except\<close>
  clauses are tried in the order of the source.\<close>

datatype outcome = Returned | Raised exn

definition isinstance_ConnectionError :: "exn \<Rightarrow> bool" where
  "isinstance_ConnectionError e = (e = ConnectionError \<or> e = ConnectTimeout)"

definition isinstance_Exception :: "exn \<Rightarrow> bool" where
  "isinstance_Exception e = (e \<noteq> KeyboardInterrupt)"

definition except_clauses :: "exn \<Rightarrow> 'w run_state \<Rightarrow> outcome \<times> 'w run_state" where
  "except_clauses error s =
     (if error = ReadTimeout then (Returned, s\<lparr>stdout := stdout s @ [Timeout_line]\<rparr>)
      else if isinstance_ConnectionError error
        then (Returned, s\<lparr>stdout := stdout s @ [Connection_line error]\<rparr>)
      else if isinstance_Exception error
        then (Returned, s\<lparr>stdout := stdout s @ [Error2_line error]\<rparr>)
      else (Raised error, s))"

text \<open>The line that the \<open>except\<close> clauses print for an exception they catch.\<close>

definition printed_for :: "exn \<Rightarrow> printed" where
  "printed_for e =
     (if e = ReadTimeout then Timeout_line
      else if isinstance_ConnectionError e then Connection_line e
      else Error2_line e)"

definition try_except :: "('w, unit) action \<Rightarrow> 'w run_state \<Rightarrow> (outcome \<times> 'w run_state) option" where
  "try_except body s =
     (case body s of
        None \<Rightarrow> None
      | Some (Inr u, s') \<Rightarrow> Some (Returned, s')
      | Some (Inl error, s') \<Rightarrow> Some (except_clauses error s'))"

text \<open>\<open>env.str(name)\<close> raises when the variable is not set; both modules read their
  variables before the \<open>try\<close> statement.\<close>

definition env_str :: "'w services \<Rightarrow> string \<Rightarrow> exn + string" where
  "env_str sv name = (case environ sv name of None \<Rightarrow> Inl EnvError | Some v \<Rightarrow> Inr v)"

definition main :: "'w services \<Rightarrow> 'w run_state \<Rightarrow> (outcome \<times> 'w run_state) option" where
  "main sv s =
     (case env_str sv ''SELLER_TOKEN'' of
        Inl e \<Rightarrow> Some (Raised e, s)
      | Inr seller_token \<Rightarrow>
     (case env_str sv ''CLIENT_ID'' of
        Inl e \<Rightarrow> Some (Raised e, s)
      | Inr client_id \<Rightarrow> try_except (main_try sv client_id seller_token) s))"

subsection \<open>market.py\<close>

definition market_get_product_list ::
  "'w services \<Rightarrow> string \<Rightarrow> string \<Rightarrow> string \<Rightarrow> 'w run_state
     \<Rightarrow> (exn + market_page) \<times> 'w run_state"
where
  "market_get_product_list sv page campaign_id access_token s =
     (case market_list sv page campaign_id access_token (world s) of
        (r, w) \<Rightarrow> (r, s\<lparr>world := w\<rparr>))"

definition market_update_stocks ::
  "'w services \<Rightarrow> market_stock list \<Rightarrow> string \<Rightarrow> string \<Rightarrow> ('w, unit) action"
where
  "market_update_stocks sv stocks campaign_id access_token s =
     (case market_stocks sv stocks campaign_id access_token (world s) of
        (r, w) \<Rightarrow>
          Some (r, s\<lparr>world := w, requests := requests s @ [Market_update_stocks stocks]\<rparr>))"

text \<open>The loop of \<open>get_offer_ids\<close> in market.py stops at a token that is absent or
  empty (\<open>not page\<close>).\<close>

partial_function (option) market_product_list_loop ::
  "'w services \<Rightarrow> string \<Rightarrow> string \<Rightarrow> string \<Rightarrow> offer_entry list \<Rightarrow> 'w run_state
     \<Rightarrow> ((exn + offer_entry list) \<times> 'w run_state) option"
where
  "market_product_list_loop sv campaign_id market_token page product_list s =
     (case market_get_product_list sv page campaign_id market_token s of
        (Inl e, s') \<Rightarrow> Some (Inl e, s')
      | (Inr some_prod, s') \<Rightarrow>
          (let product_list' = product_list @ offerMappingEntries some_prod in
           case nextPageToken some_prod of
             None \<Rightarrow> Some (Inr product_list', s')
           | Some page' \<Rightarrow>
               if page' = [] then Some (Inr product_list', s')
               else market_product_list_loop sv campaign_id market_token page' product_list' s'))"

declare market_product_list_loop.simps [code]

definition market_get_offer_ids ::
  "'w services \<Rightarrow> string \<Rightarrow> string \<Rightarrow> ('w, string list) action"
where
  "market_get_offer_ids sv campaign_id market_token =
     then_do (market_product_list_loop sv campaign_id market_token [] [])
       (\<lambda>product_list. result (Inr (map shopSku product_list)))"

text \<open>\<open>create_stocks\<close> of market.py reads the clock once, when it starts.\<close>

definition market_create_stocks_now ::
  "'w services \<Rightarrow> watch list \<Rightarrow> string list \<Rightarrow> string
     \<Rightarrow> ('w, market_stock list \<times> string list) action"
where
  "market_create_stocks_now sv watch_remnants offer_ids warehouse_id s =
     (case utcnow sv (world s) of
        (date, w) \<Rightarrow>
          Some (market_create_stocks date watch_remnants offer_ids warehouse_id, s\<lparr>world := w\<rparr>))"

text \<open>What \<open>main\<close> of market.py does for one campaign. The call of
  \<open>upload_prices\<close> that follows the stock upload in the source is a call of an
  \<open>async\<close> function whose result is dropped: its body never runs, so it has no part
  here.\<close>

definition market_campaign ::
  "'w services \<Rightarrow> watch list \<Rightarrow> string \<Rightarrow> string \<Rightarrow> string \<Rightarrow> ('w, unit) action"
where
  "market_campaign sv watch_remnants campaign_id warehouse_id market_token =
     then_do (market_get_offer_ids sv campaign_id market_token) (\<lambda>offer_ids.
     then_do (market_create_stocks_now sv watch_remnants offer_ids warehouse_id)
       (\<lambda>(stocks, offer_ids').
     then_do (result (divide_lst stocks 2000)) (\<lambda>batches.
     for_each (\<lambda>some_stock. market_update_stocks sv some_stock campaign_id market_token)
       batches)))"

definition market_main_try ::
  "'w services \<Rightarrow> watch list \<Rightarrow> string \<Rightarrow> string \<Rightarrow> string \<Rightarrow> string \<Rightarrow> string
     \<Rightarrow> ('w, unit) action"
where
  "market_main_try sv watch_remnants market_token campaign_fbs_id campaign_dbs_id
      warehouse_fbs_id warehouse_dbs_id =
     then_do (market_campaign sv watch_remnants campaign_fbs_id warehouse_fbs_id market_token)
       (\<lambda>_. market_campaign sv watch_remnants campaign_dbs_id warehouse_dbs_id market_token)"

text \<open>In market.py \<open>download_stock\<close> is called before the \<open>try\<close> statement.\<close>

definition market_main :: "'w services \<Rightarrow> 'w run_state \<Rightarrow> (outcome \<times> 'w run_state) option" where
  "market_main sv s =
     (case env_str sv ''MARKET_TOKEN'' of Inl e \<Rightarrow> Some (Raised e, s) | Inr market_token \<Rightarrow>
     (case env_str sv ''FBS_ID'' of Inl e \<Rightarrow> Some (Raised e, s) | Inr campaign_fbs_id \<Rightarrow>
     (case env_str sv ''DBS_ID'' of Inl e \<Rightarrow> Some (Raised e, s) | Inr campaign_dbs_id \<Rightarrow>
     (case env_str sv ''WAREHOUSE_FBS_ID'' of Inl e \<Rightarrow> Some (Raised e, s) | Inr warehouse_fbs_id \<Rightarrow>
     (case env_str sv ''WAREHOUSE_DBS_ID'' of Inl e \<Rightarrow> Some (Raised e, s) | Inr warehouse_dbs_id \<Rightarrow>
     (case download_stock sv s of
        None \<Rightarrow> None
      | Some (Inl e, s') \<Rightarrow> Some (Raised e, s')
      | Some (Inr watch_remnants, s') \<Rightarrow>
          try_except
            (market_main_try sv watch_remnants market_token campaign_fbs_id campaign_dbs_id
               warehouse_fbs_id warehouse_dbs_id) s'))))))"

subsection \<open>The pages of a catalog\<close>

text \<open>
  \<open>pages_fetched sv client_id seller_token n last_id s\<close> is what the first \<open>n\<close>
  listing requests of seller.py return when each one passes the \<open>last_id\<close> of the page
  before it, as far as no request raises. \<open>seller_complete pages k\<close> says that page
  \<open>k\<close> reports a total equal to the number of items of the pages up to it: the signal at
  which \<open>get_offer_ids\<close> of seller.py stops. For market.py the next request passes the
  token of the page before it, and the signal is a token that is absent or empty.
\<close>

fun pages_fetched ::
  "'w services \<Rightarrow> string \<Rightarrow> string \<Rightarrow> nat \<Rightarrow> string \<Rightarrow> 'w run_state
     \<Rightarrow> seller_page list \<times> 'w run_state"
where
  "pages_fetched sv client_id seller_token 0 last_id s = ([], s)"
| "pages_fetched sv client_id seller_token (Suc n) last_id s =
     (case get_product_list sv last_id client_id seller_token s of
        (Inl e, s') \<Rightarrow> ([], s')
      | (Inr page, s') \<Rightarrow>
          (case pages_fetched sv client_id seller_token n (page_last_id page) s' of
             (pages, s'') \<Rightarrow> (page # pages, s'')))"

definition seller_complete :: "seller_page list \<Rightarrow> nat \<Rightarrow> bool" where
  "seller_complete pages k =
     (k < length pages
      \<and> page_total (pages ! k) = int (length (concat (map page_items (take (Suc k) pages)))))"

definition next_page :: "market_page \<Rightarrow> string" where
  "next_page page = (case nextPageToken page of None \<Rightarrow> [] | Some token \<Rightarrow> token)"

fun market_pages_fetched ::
  "'w services \<Rightarrow> string \<Rightarrow> string \<Rightarrow> nat \<Rightarrow> string \<Rightarrow> 'w run_state
     \<Rightarrow> market_page list \<times> 'w run_state"
where
  "market_pages_fetched sv campaign_id market_token 0 page s = ([], s)"
| "market_pages_fetched sv campaign_id market_token (Suc n) page s =
     (case market_get_product_list sv page campaign_id market_token s of
        (Inl e, s') \<Rightarrow> ([], s')
      | (Inr some_prod, s') \<Rightarrow>
          (case market_pages_fetched sv campaign_id market_token n (next_page some_prod) s' of
             (pages, s'') \<Rightarrow> (some_prod # pages, s'')))"

definition market_complete :: "market_page list \<Rightarrow> nat \<Rightarrow> bool" where
  "market_complete pages k = (k < length pages \<and> next_page (pages ! k) = [])"

subsection \<open>A shop for examples\<close>

text \<open>Both marketplaces list the identifiers 123 and 456 on one page, the feed is the
  feed of the example, every upload succeeds; the world counts the listing calls.\<close>

definition page_123_456 :: seller_page where
  "page_123_456 = \<lparr>page_items = [\<lparr>product_offer_id = ''123''\<rparr>, \<lparr>product_offer_id = ''456''\<rparr>],
                    page_total = 2, page_last_id = ''456''\<rparr>"

definition shop :: "nat services" where
  "shop = \<lparr>environ = (\<lambda>name. Some ''secret''),
           feed_download = (\<lambda>w. (Inr feed_123, w)),
           seller_list = (\<lambda>last_id client_id seller_token w. (Inr page_123_456, Suc w)),
           seller_stocks = (\<lambda>stocks client_id seller_token w. (Inr (), w)),
           seller_prices = (\<lambda>prices client_id seller_token w. (Inr (), w)),
           market_list = (\<lambda>page campaign_id access_token w.
              (Inr \<lparr>offerMappingEntries = [\<lparr>shopSku = ''123''\<rparr>, \<lparr>shopSku = ''456''\<rparr>],
                    nextPageToken = None\<rparr>, Suc w)),
           market_stocks = (\<lambda>stocks campaign_id access_token w. (Inr (), w)),
           utcnow = (\<lambda>w. (''2023-01-01T00:00:00Z'', w))\<rparr>"

definition start :: "nat run_state" where
  "start = \<lparr>world = 0, requests = [], stdout = []\<rparr>"

text \<open>The same shop with no variable set in the environment; with both listing
  calls out of order; and with a catalog of two pages.\<close>

definition shop_unset :: "nat services" where
  "shop_unset = shop\<lparr>environ := (\<lambda>name. None)\<rparr>"

definition shop_down :: "nat services" where
  "shop_down = shop\<lparr>seller_list := (\<lambda>last_id client_id seller_token w. (Inl HTTPError, Suc w)),
                     market_list := (\<lambda>page campaign_id access_token w. (Inl ReadTimeout, Suc w))\<rparr>"

definition page_123 :: seller_page where
  "page_123 = \<lparr>page_items = [\<lparr>product_offer_id = ''123''\<rparr>], page_total = 2, page_last_id = ''123''\<rparr>"

definition page_456 :: seller_page where
  "page_456 = \<lparr>page_items = [\<lparr>product_offer_id = ''456''\<rparr>], page_total = 2, page_last_id = ''456''\<rparr>"

definition market_page_123 :: market_page where
  "market_page_123 = \<lparr>offerMappingEntries = [\<lparr>shopSku = ''123''\<rparr>], nextPageToken = Some ''next''\<rparr>"

definition market_page_456 :: market_page where
  "market_page_456 = \<lparr>offerMappingEntries = [\<lparr>shopSku = ''456''\<rparr>], nextPageToken = Some []\<rparr>"

definition shop_paged :: "nat services" where
  "shop_paged = shop\<lparr>
      seller_list := (\<lambda>last_id client_id seller_token w.
         (if last_id = [] then Inr page_123 else Inr page_456, Suc w)),
      market_list := (\<lambda>page campaign_id access_token w.
         (if page = [] then Inr market_page_123 else Inr market_page_456, Suc w))\<rparr>"

definition listed_twice :: "nat run_state" where
  "listed_twice = \<lparr>world = 2, requests = [], stdout = []\<rparr>"

text \<open>The states in which the runs of the shops end.\<close>

definition http_error_printed :: "nat run_state" where
  "http_error_printed = \<lparr>world = 1, requests = [], stdout = [Error2_line HTTPError]\<rparr>"

definition timeout_printed :: "nat run_state" where
  "timeout_printed = \<lparr>world = 1, requests = [], stdout = [Timeout_line]\<rparr>"

definition listed_once :: "nat run_state" where
  "listed_once = \<lparr>world = 1, requests = [], stdout = []\<rparr>"

definition sent_stocks :: "nat run_state" where
  "sent_stocks = \<lparr>world = 1,
     requests = [Update_stocks [\<lparr>offer_id = ''123'', stock = 5\<rparr>, \<lparr>offer_id = ''456'', stock = 0\<rparr>]],
     stdout = []\<rparr>"

definition sent_prices :: "nat run_state" where
  "sent_prices = \<lparr>world = 1,
     requests = [Update_price [\<lparr>auto_action_enabled = ''UNKNOWN'', currency_code = ''RUB'',
                               price_offer_id = ''123'', old_price = ''0'', price = ''5990''\<rparr>]],
     stdout = []\<rparr>"

text \<open>More shops: one where both listing calls are interrupted from the keyboard, and one
  whose feed cannot be downloaded; the batch that market.py sends for the feed of the
  example, and the states in which its run and the run without a feed end.\<close>

definition shop_interrupted :: "nat services" where
  "shop_interrupted =
     shop\<lparr>seller_list := (\<lambda>last_id client_id seller_token w. (Inl KeyboardInterrupt, Suc w)),
          market_list := (\<lambda>page campaign_id access_token w. (Inl KeyboardInterrupt, Suc w))\<rparr>"

definition shop_no_feed :: "nat services" where
  "shop_no_feed = shop\<lparr>feed_download := (\<lambda>w. (Inl ConnectionError, w))\<rparr>"

definition market_batch :: "market_stock list" where
  "market_batch =
     [\<lparr>sku = ''123'', warehouseId = ''secret'',
       sku_items = [\<lparr>item_count = 5, item_type = ''FIT'',
                      updatedAt = ''2023-01-01T00:00:00Z''\<rparr>]\<rparr>,
      \<lparr>sku = ''456'', warehouseId = ''secret'',
       sku_items = [\<lparr>item_count = 0, item_type = ''FIT'',
                      updatedAt = ''2023-01-01T00:00:00Z''\<rparr>]\<rparr>]"

definition market_sent_stocks :: "nat run_state" where
  "market_sent_stocks =
     \<lparr>world = 2,
      requests = [Market_update_stocks market_batch, Market_update_stocks market_batch],
      stdout = []\<rparr>"

definition connection_printed :: "nat run_state" where
  "connection_printed =
     \<lparr>world = 1, requests = [], stdout = [Connection_line ConnectionError]\<rparr>"

section \<open>Properties of price_conversion\<close>

lemma py_split_not_Nil: "py_split sep s \<noteq> []"
  by (induction s) (auto split: list.splits)

lemma hd_py_split: "hd (py_split sep s) = takeWhile (\<lambda>c. c \<noteq> sep) s"
  by (induction s) (auto split: list.splits simp: py_split_not_Nil)

lemma re_sub_non_digits_filter: "re_sub_non_digits s = filter is_digit s"
  unfolding re_sub_non_digits_def by (induction s) auto

lemma price_conversion_str:
  "price_conversion (CStr p) = Inr (filter is_digit (takeWhile (\<lambda>c. c \<noteq> CHR ''.'') p))"
  using hd_py_split [of "CHR ''.''" p] py_split_not_Nil [of "CHR ''.''" p]
  by (cases "py_split (CHR ''.'') p") (simp_all add: re_sub_non_digits_filter)

text \<open>
  Claim C3. On every price string, \<open>price_conversion\<close> returns the part of the string
  before its first \<open>"."\<close> with every character that is not one of \<open>0\<close> to \<open>9\<close>
  deleted. The two prices of the specification, whose currency word is written in
  Cyrillic letters (here in UTF-8) and ends with a full stop, give \<open>"5990"\<close> and
  \<open>"100"\<close>.
\<close>

theorem price_conversion_digits_before_dot:
  "price_conversion (CStr p) = Inr (filter is_digit (takeWhile (\<lambda>c. c \<noteq> CHR ''.'') p))
   \<and> price_conversion
         (CStr (''5'990.00 '' @ [CHR 0xD1, CHR 0x80, CHR 0xD1, CHR 0x83, CHR 0xD0, CHR 0xB1] @ ''.''))
       = Inr ''5990''
   \<and> price_conversion
         (CStr (''100 '' @ [CHR 0xD1, CHR 0x80, CHR 0xD1, CHR 0x83, CHR 0xD0, CHR 0xB1] @ ''.''))
       = Inr ''100''"
proof (intro conjI)
  show "price_conversion (CStr p) = Inr (filter is_digit (takeWhile (\<lambda>c. c \<noteq> CHR ''.'') p))"
    by (rule price_conversion_str)
qed (simp_all add: re_sub_non_digits_def is_digit_def)

section \<open>Properties of divide\<close>

lemma py_slice_nonneg:
  "0 \<le> i \<Longrightarrow> 0 \<le> n \<Longrightarrow> py_slice lst i (i + n) = take (nat n) (drop (nat i) lst)"
  unfolding py_slice_def slice_bound_def Let_def
  by (cases "nat i < length lst") (auto simp: min_def nat_add_distrib)

lemma divide_chunks_aux:
  "0 < n \<Longrightarrow> 0 \<le> i \<Longrightarrow>
   map (\<lambda>j. py_slice lst j (j + n)) (py_range i (int (length lst)) n)
     = chunks_of (nat n) (drop (nat i) lst)"
proof (induction i "int (length lst)" n rule: py_range.induct)
  case (1 i step)
  show ?case
  proof (cases "i < int (length lst)")
    case True
    have d: "drop (nat step) (drop (nat i) lst) = drop (nat (i + step)) lst"
      using 1(3,4) by (simp add: nat_add_distrib add.commute)
    have ne: "drop (nat i) lst \<noteq> []" using True 1(4) by simp
    have "map (\<lambda>j. py_slice lst j (j + step)) (py_range i (int (length lst)) step)
        = py_slice lst i (i + step)
            # map (\<lambda>j. py_slice lst j (j + step)) (py_range (i + step) (int (length lst)) step)"
      using True 1(3) by (subst py_range.simps) simp
    also have "\<dots> = take (nat step) (drop (nat i) lst)
                      # chunks_of (nat step) (drop (nat (i + step)) lst)"
      using 1(1) True 1(3,4) by (simp add: py_slice_nonneg)
    also have "\<dots> = chunks_of (nat step) (drop (nat i) lst)"
      using ne 1(3) d by (subst (2) chunks_of.simps) simp
    finally show ?thesis .
  next
    case False
    then have "drop (nat i) lst = []" using 1(4) by simp
    moreover have "py_range i (int (length lst)) step = []"
      using False 1(3) by (subst py_range.simps) simp
    ultimately show ?thesis by (subst chunks_of.simps) simp
  qed
qed

lemma divide_chunks: "0 < n \<Longrightarrow> divide_lst lst n = Inr (chunks_of (nat n) lst)"
  unfolding divide_lst_def using divide_chunks_aux [of n 0 lst] by simp

lemma concat_chunks_of: "0 < m \<Longrightarrow> concat (chunks_of m xs) = xs"
proof (induction m xs rule: chunks_of.induct)
  case (1 m xs)
  then show ?case by (subst chunks_of.simps) simp
qed

lemma length_chunks_of: "0 < m \<Longrightarrow> length (chunks_of m xs) = (length xs + m - 1) div m"
proof (induction m xs rule: chunks_of.induct)
  case (1 m xs)
  show ?case
  proof (cases "xs = []")
    case True
    with 1(2) show ?thesis by (subst chunks_of.simps) simp
  next
    case False
    then have l: "0 < length xs" by simp
    have ih: "length (chunks_of m (drop m xs)) = (length xs - m + m - 1) div m"
      using 1 False by simp
    have e: "length (chunks_of m xs) = Suc ((length xs - m + m - 1) div m)"
      using False 1(2) ih by (subst chunks_of.simps) simp
    show ?thesis
    proof (cases "m \<le> length xs")
      case True
      then have a: "length xs + m - 1 = (length xs - 1) + m" using l by simp
      have "(length xs + m - 1) div m = Suc ((length xs - 1) div m)"
        unfolding a using 1(2) div_add_self2 [of m "length xs - 1"] by simp
      then show ?thesis using e True by simp
    next
      case False
      then have "m * 1 \<le> length xs + m - 1" and "length xs + m - 1 < m * Suc 1"
        using l by arith+
      then have "(length xs + m - 1) div m = 1"
        by (rule div_nat_eqI)
      then show ?thesis using e False 1(2) by simp
    qed
  qed
qed

lemma nth_chunks_of:
  "0 < m \<Longrightarrow> k < length (chunks_of m xs) \<Longrightarrow> chunks_of m xs ! k = take m (drop (k * m) xs)"
proof (induction m xs arbitrary: k rule: chunks_of.induct)
  case (1 m xs)
  show ?case
  proof (cases "xs = []")
    case True
    then have "chunks_of m xs = []" by (subst chunks_of.simps) simp
    with 1(3) show ?thesis by simp
  next
    case False
    have e: "chunks_of m xs = take m xs # chunks_of m (drop m xs)"
      using False 1(2) by (subst chunks_of.simps) simp
    show ?thesis
    proof (cases k)
      case 0
      then show ?thesis using e by simp
    next
      case (Suc j)
      then have "j < length (chunks_of m (drop m xs))" using 1(3) e by simp
      then have "chunks_of m (drop m xs) ! j = take m (drop (j * m) (drop m xs))"
        using 1(1) [of j] False 1(2) by simp
      then show ?thesis using e Suc by (simp add: add.commute)
    qed
  qed
qed

lemma index_chunks_of:
  assumes "0 < m"
  shows "k < length (chunks_of m xs) \<longleftrightarrow> k * m < length xs"
proof -
  have "k < (length xs + m - 1) div m \<longleftrightarrow> Suc k \<le> (length xs + m - 1) div m"
    by (simp only: Suc_le_eq)
  also have "\<dots> \<longleftrightarrow> Suc k * m \<le> length xs + m - 1"
    using assms by (simp only: less_eq_div_iff_mult_less_eq)
  also have "\<dots> \<longleftrightarrow> k * m < length xs" using assms by (cases m) (simp_all add: Suc_le_eq)
  finally show ?thesis using assms by (simp only: length_chunks_of)
qed

lemma length_chunk_le:
  assumes "0 < m" "k < length (chunks_of m xs)"
  shows "length (chunks_of m xs ! k) \<le> m" "0 < length (chunks_of m xs ! k)"
  using assms index_chunks_of [of m k xs] by (simp_all add: nth_chunks_of)

lemma length_chunk_full:
  assumes "0 < m" "Suc k < length (chunks_of m xs)"
  shows "length (chunks_of m xs ! k) = m"
proof -
  have "Suc k * m < length xs" using assms index_chunks_of [of m "Suc k" xs] by simp
  then have "m \<le> length xs - k * m" by simp
  moreover have "chunks_of m xs ! k = take m (drop (k * m) xs)"
    using assms by (simp add: nth_chunks_of)
  ultimately show ?thesis by simp
qed

lemma divide_example: "divide_lst [1, 2, 3, 4, 5 :: int] 2 = Inr [[1, 2], [3, 4], [5]]"
  by (simp add: divide_lst_def py_range.simps py_slice_def slice_bound_def)

text \<open>
  Claim C4. For every list and every chunk size \<open>n \<ge> 1\<close>, \<open>divide\<close> yields chunks
  whose concatenation is the list; chunk number \<open>k\<close> is the slice of \<open>n\<close> elements that
  starts at position \<open>k * n\<close>, so the chunks are contiguous and in the original order;
  no chunk is longer than \<open>n\<close>, and every chunk but the last has exactly \<open>n\<close> elements.
  \<open>divide([1,2,3,4,5], 2)\<close> yields \<open>[[1,2],[3,4],[5]]\<close>.
\<close>

theorem divide_contiguous_chunks:
  assumes "1 \<le> n"
  shows "(\<exists>chunks. divide_lst lst n = Inr chunks
           \<and> concat chunks = lst
           \<and> (\<forall>k < length chunks. chunks ! k = take (nat n) (drop (k * nat n) lst))
           \<and> (\<forall>c \<in> set chunks. int (length c) \<le> n)
           \<and> (\<forall>k. Suc k < length chunks \<longrightarrow> int (length (chunks ! k)) = n))
         \<and> divide_lst [1, 2, 3, 4, 5 :: int] 2 = Inr [[1, 2], [3, 4], [5]]"
proof -
  let ?m = "nat n"
  let ?cs = "chunks_of ?m lst"
  have m: "0 < ?m" using assms by simp
  have "divide_lst lst n = Inr ?cs" using assms by (simp add: divide_chunks)
  moreover have "concat ?cs = lst" using m by (rule concat_chunks_of)
  moreover have "\<forall>k < length ?cs. ?cs ! k = take ?m (drop (k * ?m) lst)"
    using m by (simp add: nth_chunks_of)
  moreover have "\<forall>c \<in> set ?cs. int (length c) \<le> n"
  proof
    fix c assume "c \<in> set ?cs"
    then obtain k where "k < length ?cs" "c = ?cs ! k" by (auto simp: in_set_conv_nth)
    then have "length c \<le> ?m" using length_chunk_le(1) [OF m] by simp
    then show "int (length c) \<le> n" using assms by linarith
  qed
  moreover have "\<forall>k. Suc k < length ?cs \<longrightarrow> int (length (?cs ! k)) = n"
  proof (intro allI impI)
    fix k assume "Suc k < length ?cs"
    then have "length (?cs ! k) = ?m" using m by (rule length_chunk_full [rotated])
    then show "int (length (?cs ! k)) = n" using assms by simp
  qed
  ultimately have "\<exists>chunks. divide_lst lst n = Inr chunks
           \<and> concat chunks = lst
           \<and> (\<forall>k < length chunks. chunks ! k = take (nat n) (drop (k * nat n) lst))
           \<and> (\<forall>c \<in> set chunks. int (length c) \<le> n)
           \<and> (\<forall>k. Suc k < length chunks \<longrightarrow> int (length (chunks ! k)) = n)"
    by blast
  then show ?thesis using divide_example by (rule conjI)
qed

theorem divide_contiguous_chunks_witness:
  "(1::int) \<le> 2
   \<and> (\<exists>chunks. divide_lst [10, 20, 30 :: int] 2 = Inr chunks
          \<and> concat chunks = [10, 20, 30]
          \<and> (\<forall>k < length chunks. chunks ! k = take (nat 2) (drop (k * nat 2) [10, 20, 30]))
          \<and> (\<forall>c \<in> set chunks. int (length c) \<le> 2)
          \<and> (\<forall>k. Suc k < length chunks \<longrightarrow> int (length (chunks ! k)) = 2))"
  using divide_contiguous_chunks [of 2 "[10, 20, 30 :: int]"] by simp

lemma length_chunks_of_ceiling:
  assumes "0 < m"
  shows "int (length (chunks_of m xs)) = \<lceil>real (length xs) / real m\<rceil>"
proof -
  let ?N = "length (chunks_of m xs)"
  have up: "length xs \<le> ?N * m"
    using index_chunks_of [OF assms, of ?N xs] by simp
  have lo: "real ?N - 1 < real (length xs) / real m"
  proof (cases ?N)
    case 0
    have "(0::real) \<le> real (length xs) / real m" by simp
    then show ?thesis using 0 by linarith
  next
    case (Suc j)
    then have "j * m < length xs" using index_chunks_of [OF assms, of j xs] by simp
    then have "real (j * m) < real (length xs)" by (simp only: of_nat_less_iff)
    then have "real j * real m < real (length xs)" by simp
    then have "real j < real (length xs) / real m"
      using assms by (simp add: pos_less_divide_eq)
    then show ?thesis using Suc by simp
  qed
  have "real (length xs) \<le> real (?N * m)" using up by (simp only: of_nat_le_iff)
  then have "real (length xs) \<le> real ?N * real m" by simp
  then have hi: "real (length xs) / real m \<le> real ?N"
    using assms by (simp add: pos_divide_le_eq)
  have "\<lceil>real (length xs) / real m\<rceil> = int ?N"
    using lo hi by (intro ceiling_unique) simp_all
  then show ?thesis by simp
qed

text \<open>
  Claim C10. With \<open>n = 0\<close>, \<open>divide\<close> raises \<open>ValueError\<close> for every list, and no chunk
  is yielded. With \<open>n \<ge> 1\<close> it always returns, and the number of chunks is the ceiling of
  \<open>len(lst) / n\<close>: none for the empty list.
\<close>

theorem divide_zero_raises_else_ceiling:
  "divide_lst lst 0 = Inl ValueError
   \<and> (1 \<le> n \<longrightarrow>
        (\<exists>chunks. divide_lst lst n = Inr chunks
            \<and> int (length chunks) = \<lceil>real (length lst) / real_of_int n\<rceil>
            \<and> (lst = [] \<longrightarrow> chunks = [])))"
proof (intro conjI impI)
  show "divide_lst lst 0 = Inl ValueError" by (simp add: divide_lst_def)
next
  assume n: "1 \<le> n"
  then have m: "0 < nat n" by simp
  have r: "real (nat n) = real_of_int n" using n by simp
  have "divide_lst lst n = Inr (chunks_of (nat n) lst)" using n by (simp add: divide_chunks)
  moreover have "int (length (chunks_of (nat n) lst)) = \<lceil>real (length lst) / real_of_int n\<rceil>"
    using length_chunks_of_ceiling [OF m, of lst] r by simp
  moreover have "lst = [] \<longrightarrow> chunks_of (nat n) lst = []"
    by (subst chunks_of.simps) simp
  ultimately show "\<exists>chunks. divide_lst lst n = Inr chunks
            \<and> int (length chunks) = \<lceil>real (length lst) / real_of_int n\<rceil>
            \<and> (lst = [] \<longrightarrow> chunks = [])" by blast
qed

theorem divide_zero_raises_else_ceiling_witness:
  "(1::int) \<le> 2 \<and> divide_lst [1, 2, 3, 4, 5 :: int] 0 = Inl ValueError
   \<and> (\<exists>chunks. divide_lst [1, 2, 3, 4, 5 :: int] 2 = Inr chunks \<and> int (length chunks) = 3)"
proof -
  have "\<lceil>real (length [1, 2, 3, 4, 5 :: int]) / real_of_int 2\<rceil> = 3" by simp
  then show ?thesis
    using divide_zero_raises_else_ceiling [of "[1, 2, 3, 4, 5 :: int]" 2] by auto
qed

section \<open>Properties of the reconciler\<close>

lemma stocks_loop_Cons:
  "stocks_loop (w # rest) ids acc =
     (if py_str (kod w) \<in> set ids then
        (case quantity_rule (kolichestvo w) of
           Inl e \<Rightarrow> Inl e
         | Inr n \<Rightarrow> stocks_loop rest (remove1 (py_str (kod w)) ids)
                      (acc @ [\<lparr>offer_id = py_str (kod w), stock = n\<rparr>]))
      else stocks_loop rest ids acc)"
  by (simp add: quantity_rule_def Let_def)

lemma stocks_loop_mset:
  "stocks_loop feed ids acc = Inr (out, r) \<Longrightarrow>
   mset (map offer_id out) + mset r = mset (map offer_id acc) + mset ids"
proof (induction feed arbitrary: ids acc)
  case Nil
  then show ?case by simp
next
  case (Cons w rest)
  show ?case
  proof (cases "py_str (kod w) \<in> set ids")
    case True
    with Cons.prems obtain n where
      q: "quantity_rule (kolichestvo w) = Inr n" and
      l: "stocks_loop rest (remove1 (py_str (kod w)) ids)
            (acc @ [\<lparr>offer_id = py_str (kod w), stock = n\<rparr>]) = Inr (out, r)"
      by (auto simp: stocks_loop_Cons simp del: stocks_loop.simps split: sum.splits)
    from Cons.IH [OF l] True show ?thesis by simp
  next
    case False
    with Cons show ?thesis by (simp add: stocks_loop_Cons del: stocks_loop.simps)
  qed
qed

lemma stocks_loop_prefix:
  "stocks_loop feed ids acc = Inr (out, r) \<Longrightarrow> \<exists>new. out = acc @ new"
proof (induction feed arbitrary: ids acc)
  case Nil
  then show ?case by simp
next
  case (Cons w rest)
  show ?case
  proof (cases "py_str (kod w) \<in> set ids")
    case True
    with Cons.prems obtain n where
      l: "stocks_loop rest (remove1 (py_str (kod w)) ids)
            (acc @ [\<lparr>offer_id = py_str (kod w), stock = n\<rparr>]) = Inr (out, r)"
      by (auto simp: stocks_loop_Cons simp del: stocks_loop.simps split: sum.splits)
    from Cons.IH [OF l] show ?thesis by auto
  next
    case False
    with Cons show ?thesis by (simp add: stocks_loop_Cons del: stocks_loop.simps)
  qed
qed

lemma stocks_loop_unmatched_stays:
  "stocks_loop feed ids acc = Inr (out, r) \<Longrightarrow> x \<in> set ids \<Longrightarrow> x \<notin> set (codes feed)
   \<Longrightarrow> x \<in> set r"
proof (induction feed arbitrary: ids acc)
  case Nil
  then show ?case by simp
next
  case (Cons w rest)
  from Cons.prems(3) have ne: "x \<noteq> py_str (kod w)" and nr: "x \<notin> set (codes rest)"
    by (auto simp: codes_def)
  show ?case
  proof (cases "py_str (kod w) \<in> set ids")
    case True
    with Cons.prems obtain n where
      l: "stocks_loop rest (remove1 (py_str (kod w)) ids)
            (acc @ [\<lparr>offer_id = py_str (kod w), stock = n\<rparr>]) = Inr (out, r)"
      by (auto simp: stocks_loop_Cons simp del: stocks_loop.simps split: sum.splits)
    have "x \<in> set (remove1 (py_str (kod w)) ids)" using Cons.prems(2) ne by simp
    from Cons.IH [OF l this nr] show ?thesis .
  next
    case False
    with Cons.prems(1) have "stocks_loop rest ids acc = Inr (out, r)"
      by (simp add: stocks_loop_Cons del: stocks_loop.simps)
    from Cons.IH [OF this Cons.prems(2) nr] show ?thesis .
  qed
qed

lemma stocks_loop_distinct_residual:
  "stocks_loop feed ids acc = Inr (out, r) \<Longrightarrow> distinct ids
   \<Longrightarrow> r = filter (\<lambda>x. x \<notin> set (codes feed)) ids"
proof (induction feed arbitrary: ids acc)
  case Nil
  then show ?case by (simp add: codes_def)
next
  case (Cons w rest)
  let ?c = "py_str (kod w)"
  show ?case
  proof (cases "?c \<in> set ids")
    case True
    with Cons.prems obtain n where
      l: "stocks_loop rest (remove1 ?c ids) (acc @ [\<lparr>offer_id = ?c, stock = n\<rparr>]) = Inr (out, r)"
      by (auto simp: stocks_loop_Cons simp del: stocks_loop.simps split: sum.splits)
    have d: "distinct (remove1 ?c ids)" using Cons.prems(2) by simp
    have "r = filter (\<lambda>x. x \<notin> set (codes rest)) (remove1 ?c ids)"
      using Cons.IH [OF l d] .
    also have "remove1 ?c ids = filter (\<lambda>x. x \<noteq> ?c) ids"
      using Cons.prems(2)
      by (auto simp: distinct_remove1_removeAll removeAll_filter_not_eq intro: filter_cong)
    finally show ?thesis by (auto simp: codes_def intro: filter_cong)
  next
    case False
    with Cons.prems(1) have "stocks_loop rest ids acc = Inr (out, r)"
      by (simp add: stocks_loop_Cons del: stocks_loop.simps)
    from Cons.IH [OF this Cons.prems(2)] False show ?thesis
      by (auto simp: codes_def intro: filter_cong)
  qed
qed

lemma market_stocks_loop_sim:
  "market_stocks_loop wh d feed ids (map (to_market wh d) acc)
     = map_sum id (map_prod (map (to_market wh d)) id) (stocks_loop feed ids acc)"
proof (induction feed arbitrary: ids acc)
  case Nil
  then show ?case by simp
next
  case (Cons w rest)
  have step: "\<And>n. map (to_market wh d) acc @
        [\<lparr>sku = py_str (kod w), warehouseId = wh,
          sku_items = [\<lparr>item_count = n, item_type = ''FIT'', updatedAt = d\<rparr>]\<rparr>]
      = map (to_market wh d) (acc @ [\<lparr>offer_id = py_str (kod w), stock = n\<rparr>])"
    by (simp add: to_market_def)
  show ?case
    by (simp add: Let_def Cons.IH step del: map_append split: sum.splits)
qed

lemma market_create_stocks_sim:
  "market_create_stocks d feed ids wh
     = map_sum id (map_prod (map (to_market wh d)) id) (create_stocks feed ids)"
proof -
  have "market_stocks_loop wh d feed ids []
     = map_sum id (map_prod (map (to_market wh d)) id) (stocks_loop feed ids [])"
    using market_stocks_loop_sim [of wh d feed ids "[]"] by simp
  then show ?thesis
    unfolding market_create_stocks_def create_stocks_def
    by (auto simp: to_market_def split: sum.splits)
qed

lemma stocks_loop_append:
  "stocks_loop (pre @ post) ids acc =
     (case stocks_loop pre ids acc of
        Inl e \<Rightarrow> Inl e
      | Inr (out, r) \<Rightarrow> stocks_loop post r out)"
  by (induction pre arbitrary: ids acc) (auto simp: Let_def split: sum.splits)

lemma stocks_loop_perm:
  "mset ids1 = mset ids2 \<Longrightarrow>
   map_sum id (map_prod id mset) (stocks_loop feed ids1 acc)
     = map_sum id (map_prod id mset) (stocks_loop feed ids2 acc)"
proof (induction feed arbitrary: ids1 ids2 acc)
  case Nil
  then show ?case by simp
next
  case (Cons w rest)
  let ?c = "py_str (kod w)"
  from Cons.prems have s: "set ids1 = set ids2" by (rule mset_eq_setD)
  show ?case
  proof (cases "?c \<in> set ids1")
    case True
    then have "mset (remove1 ?c ids1) = mset (remove1 ?c ids2)"
      using Cons.prems by simp
    then have "\<And>acc'. map_sum id (map_prod id mset) (stocks_loop rest (remove1 ?c ids1) acc')
        = map_sum id (map_prod id mset) (stocks_loop rest (remove1 ?c ids2) acc')"
      by (rule Cons.IH)
    note ih = this
    show ?thesis
    proof (cases "quantity_rule (kolichestvo w)")
      case (Inl e)
      then show ?thesis using True s by (simp add: stocks_loop_Cons del: stocks_loop.simps)
    next
      case (Inr n)
      have "stocks_loop (w # rest) ids1 acc
          = stocks_loop rest (remove1 ?c ids1) (acc @ [\<lparr>offer_id = ?c, stock = n\<rparr>])"
        and "stocks_loop (w # rest) ids2 acc
          = stocks_loop rest (remove1 ?c ids2) (acc @ [\<lparr>offer_id = ?c, stock = n\<rparr>])"
        using True s Inr by (simp_all add: stocks_loop_Cons del: stocks_loop.simps)
      then show ?thesis by (simp only: ih)
    qed
  next
    case False
    then have "stocks_loop (w # rest) ids1 acc = stocks_loop rest ids1 acc"
      and "stocks_loop (w # rest) ids2 acc = stocks_loop rest ids2 acc"
      using s by (simp_all add: stocks_loop_Cons del: stocks_loop.simps)
    then show ?thesis by (simp only: Cons.IH [OF Cons.prems])
  qed
qed

lemma prices_loop_ids:
  "prices_loop feed ids acc = Inr out \<Longrightarrow>
   map price_offer_id out = map price_offer_id acc @ filter (\<lambda>c. c \<in> set ids) (codes feed)"
proof (induction feed arbitrary: acc)
  case Nil
  then show ?case by (simp add: codes_def)
next
  case (Cons w rest)
  show ?case
  proof (cases "py_str (kod w) \<in> set ids")
    case True
    with Cons.prems obtain p where
      l: "prices_loop rest ids
            (acc @ [\<lparr>auto_action_enabled = ''UNKNOWN'', currency_code = ''RUB'',
                      price_offer_id = py_str (kod w), old_price = ''0'', price = p\<rparr>]) = Inr out"
      by (auto split: sum.splits)
    from Cons.IH [OF l] True show ?thesis by (simp add: codes_def)
  next
    case False
    with Cons show ?thesis by (simp add: codes_def)
  qed
qed

lemma prices_loop_no_match:
  "set ids \<inter> set (codes feed) = {} \<Longrightarrow> prices_loop feed ids acc = Inr acc"
  by (induction feed arbitrary: acc) (auto simp: codes_def)

lemma digits_ok_hd: "digits_ok s \<Longrightarrow> \<exists>c cs. s = c # cs \<and> is_digit c"
  by (induction s rule: digits_ok.induct) (auto split: if_splits)

lemma decimal_snoc: "decimal (ds @ [d]) = 10 * decimal ds + digit_val d"
proof -
  have "(\<Sum>i<length ds. digit_val ((ds @ [d]) ! i) * 10 ^ (length ds - i))
      = (\<Sum>i<length ds. 10 * (digit_val (ds ! i) * 10 ^ (length ds - Suc i)))"
  proof (rule sum.cong)
    fix i assume "i \<in> {..<length ds}"
    then have i: "i < length ds" by simp
    then have "length ds - i = Suc (length ds - Suc i)" by arith
    then have "(10::int) ^ (length ds - i) = 10 * 10 ^ (length ds - Suc i)" by simp
    then show "digit_val ((ds @ [d]) ! i) * 10 ^ (length ds - i)
        = 10 * (digit_val (ds ! i) * 10 ^ (length ds - Suc i))"
      using i by (simp add: nth_append)
  qed simp
  then show ?thesis
    by (simp add: decimal_def sum_distrib_left)
qed

lemma foldl_decimal: "foldl (\<lambda>a c. 10 * a + digit_val c) 0 ds = decimal ds"
proof (induction ds rule: rev_induct)
  case Nil
  show ?case by (simp add: decimal_def)
next
  case (snoc x xs)
  then show ?case by (simp add: decimal_snoc)
qed

lemma digit_not_space: "is_digit c \<Longrightarrow> \<not> is_space c"
  by (auto simp: is_digit_def is_space_def)

lemma underscore_not_digit: "\<not> is_digit (CHR ''_'')"
  by (simp add: is_digit_def)

lemma digits_ok_last: "digits_ok s \<Longrightarrow> is_digit (last s)"
  by (induction s rule: digits_ok.induct) (auto split: if_splits)

lemma join_groups_Cons: "join_groups ((c # g) # gs) = c # join_groups (g # gs)"
  by (cases gs) simp_all

lemma digits_ok_groups:
  "digits_ok s \<Longrightarrow>
   \<exists>groups. s = join_groups groups \<and> groups \<noteq> []
      \<and> list_all (\<lambda>g. g \<noteq> [] \<and> list_all is_digit g) groups"
proof (induction s rule: digits_ok.induct)
  case 1
  then show ?case by simp
next
  case (2 c)
  then have "[c] = join_groups [[c]] \<and> [[c]] \<noteq> []
      \<and> list_all (\<lambda>g. g \<noteq> [] \<and> list_all is_digit g) [[c]]" by simp
  then show ?case by blast
next
  case (3 c d cs)
  from "3.prems" have c: "is_digit c" by (simp split: if_splits)
  show ?case
  proof (cases "d = CHR ''_''")
    case True
    with "3.prems" c have "digits_ok cs" by simp
    from "3.IH"(1) [OF c True this] obtain groups where
      g: "cs = join_groups groups" "groups \<noteq> []"
         "list_all (\<lambda>g. g \<noteq> [] \<and> list_all is_digit g) groups" by blast
    from g(2) obtain h hs where h: "groups = h # hs" by (cases groups) auto
    have "c # d # cs = join_groups ([c] # groups)" using True g(1) h by simp
    moreover have "list_all (\<lambda>g. g \<noteq> [] \<and> list_all is_digit g) ([c] # groups)"
      using c g(3) by simp
    ultimately show ?thesis by blast
  next
    case False
    with "3.prems" c have "digits_ok (d # cs)" by simp
    from "3.IH"(2) [OF c False this] obtain groups where
      g: "d # cs = join_groups groups" "groups \<noteq> []"
         "list_all (\<lambda>g. g \<noteq> [] \<and> list_all is_digit g) groups" by blast
    from g(2) obtain h hs where h: "groups = h # hs" by (cases groups) auto
    have "c # d # cs = join_groups ((c # h) # hs)"
      using g(1) h by (simp add: join_groups_Cons)
    moreover have "list_all (\<lambda>g. g \<noteq> [] \<and> list_all is_digit g) ((c # h) # hs)"
      using c g(3) h by simp
    ultimately show ?thesis by blast
  qed
qed

lemma digits_ok_group_append:
  assumes "g \<noteq> []" "list_all is_digit g" "r = [] \<or> (\<exists>r'. r = CHR ''_'' # r' \<and> digits_ok r')"
  shows "digits_ok (g @ r)"
  using assms(1,2)
proof (induction g rule: list_nonempty_induct)
  case (single c)
  then show ?case using assms(3) by auto
next
  case (cons c g)
  from cons.hyps obtain d g' where g: "g = d # g'" by (cases g) auto
  from cons.prems g have "is_digit c" "is_digit d" "list_all is_digit g" by simp_all
  then have "d \<noteq> CHR ''_''" using underscore_not_digit by auto
  then show ?case using cons.IH \<open>is_digit c\<close> \<open>list_all is_digit g\<close> g by simp
qed

lemma groups_digits_ok:
  "groups \<noteq> [] \<Longrightarrow> list_all (\<lambda>g. g \<noteq> [] \<and> list_all is_digit g) groups
   \<Longrightarrow> digits_ok (join_groups groups)"
proof (induction groups rule: join_groups.induct)
  case 1
  then show ?case by simp
next
  case (2 g)
  then show ?case using digits_ok_group_append [of g "[]"] by simp
next
  case (3 g h gs)
  then have "digits_ok (join_groups (h # gs))" by simp
  then show ?case using 3 digits_ok_group_append [of g "CHR ''_'' # join_groups (h # gs)"] by simp
qed

lemma filter_join_groups:
  "list_all (\<lambda>g. g \<noteq> [] \<and> list_all is_digit g) groups
   \<Longrightarrow> filter is_digit (join_groups groups) = concat groups"
proof (induction groups rule: join_groups.induct)
  case (3 g h gs)
  then show ?case by (simp add: underscore_not_digit list_all_iff)
qed (simp_all add: list_all_iff)

lemma strip_exact:
  assumes "m \<noteq> []" "\<not> is_space (hd m)" "\<not> is_space (last m)"
    "list_all is_space a" "list_all is_space b"
  shows "strip (a @ m @ b) = m"
proof -
  from assms(1) obtain x xs where m: "m = x # xs" by (cases m) auto
  have 1: "dropWhile is_space (a @ m @ b) = m @ b"
    using assms(2,4) m by (simp add: dropWhile_append2 list_all_iff)
  from assms(1) have "rev m \<noteq> []" by simp
  then obtain y ys where r: "rev m = y # ys" by (cases "rev m") auto
  then have "y = last m" using assms(1) by (metis last_rev list.sel(1) rev_rev_ident hd_rev)
  then have "\<not> is_space y" using assms(3) by simp
  then have "dropWhile is_space (rev m) = rev m" unfolding r by simp
  moreover have "dropWhile is_space (rev b @ rev m) = dropWhile is_space (rev m)"
    by (rule dropWhile_append2) (use assms(5) in \<open>auto simp: list_all_iff\<close>)
  ultimately have 2: "dropWhile is_space (rev b @ rev m) = rev m" by simp
  show ?thesis by (simp add: strip_def 1 2)
qed

lemma strip_decomp:
  "\<exists>a b. s = a @ strip s @ b \<and> list_all is_space a \<and> list_all is_space b"
proof -
  let ?t = "dropWhile is_space s"
  have "s = takeWhile is_space s @ ?t" by simp
  moreover have "?t = strip s @ rev (takeWhile is_space (rev ?t))"
  proof -
    have "rev (takeWhile is_space (rev ?t) @ dropWhile is_space (rev ?t)) = ?t"
      by (simp only: takeWhile_dropWhile_id rev_rev_ident)
    then have "rev (dropWhile is_space (rev ?t)) @ rev (takeWhile is_space (rev ?t)) = ?t"
      by (simp only: rev_append)
    then show ?thesis by (simp add: strip_def)
  qed
  moreover have "list_all is_space (takeWhile is_space s)"
    by (auto simp: list_all_iff dest: set_takeWhileD)
  moreover have "list_all is_space (rev (takeWhile is_space (rev ?t)))"
    by (auto simp: list_all_iff dest: set_takeWhileD)
  ultimately show ?thesis by metis
qed

lemma int_of_digits_Inr:
  "int_of_digits s = Inr v \<longleftrightarrow>
   (\<exists>groups. s = join_groups groups \<and> groups \<noteq> []
      \<and> list_all (\<lambda>g. g \<noteq> [] \<and> list_all is_digit g) groups
      \<and> length (concat groups) \<le> 4300 \<and> v = decimal (concat groups))"
proof
  assume "int_of_digits s = Inr v"
  then have ok: "digits_ok s" and len: "length (filter is_digit s) \<le> 4300"
    and v: "v = digits_value s"
    by (auto simp: int_of_digits_def max_str_digits_def split: if_splits)
  from digits_ok_groups [OF ok] obtain groups where
    g: "s = join_groups groups" "groups \<noteq> []"
       "list_all (\<lambda>g. g \<noteq> [] \<and> list_all is_digit g) groups" by blast
  have f: "filter is_digit s = concat groups" using g(1,3) by (simp add: filter_join_groups)
  have "length (concat groups) \<le> 4300" using len f by simp
  moreover have "v = decimal (concat groups)"
    using v f by (simp add: digits_value_def foldl_decimal)
  ultimately show "\<exists>groups. s = join_groups groups \<and> groups \<noteq> []
      \<and> list_all (\<lambda>g. g \<noteq> [] \<and> list_all is_digit g) groups
      \<and> length (concat groups) \<le> 4300 \<and> v = decimal (concat groups)"
    using g by blast
next
  assume "\<exists>groups. s = join_groups groups \<and> groups \<noteq> []
      \<and> list_all (\<lambda>g. g \<noteq> [] \<and> list_all is_digit g) groups
      \<and> length (concat groups) \<le> 4300 \<and> v = decimal (concat groups)"
  then obtain groups where
    g: "s = join_groups groups" "groups \<noteq> []"
       "list_all (\<lambda>g. g \<noteq> [] \<and> list_all is_digit g) groups"
       "length (concat groups) \<le> 4300" "v = decimal (concat groups)" by blast
  have ok: "digits_ok s" using g(1-3) by (simp add: groups_digits_ok)
  have f: "filter is_digit s = concat groups" using g(1,3) by (simp add: filter_join_groups)
  show "int_of_digits s = Inr v"
    using ok f g(4,5)
    by (simp add: int_of_digits_def max_str_digits_def digits_value_def foldl_decimal)
qed

lemma int_of_digits_cases: "int_of_digits s = Inl e \<Longrightarrow> e = ValueError"
  by (auto simp: int_of_digits_def split: if_splits)

lemma int_of_string_cases: "int_of_string s = Inl e \<Longrightarrow> e = ValueError"
  by (auto simp: int_of_string_def int_of_digits_def split: list.splits if_splits)

lemma int_of_string_literal: "int_of_string s = Inr v \<longleftrightarrow> int_literal (to_ascii s) v"
proof
  let ?t = "to_ascii s"
  assume a: "int_of_string s = Inr v"
  from strip_decomp [of ?t] obtain ws1 ws2 where
    d: "?t = ws1 @ strip ?t @ ws2" "list_all is_space ws1" "list_all is_space ws2" by blast
  from a obtain c cs where s: "strip ?t = c # cs"
    by (cases "strip ?t") (auto simp: int_of_string_def)
  consider (minus) "c = CHR ''-''" | (plus) "c = CHR ''+''"
    | (none) "c \<noteq> CHR ''-''" "c \<noteq> CHR ''+''" by blast
  then show "int_literal ?t v"
  proof cases
    case minus
    with a s obtain v' where "int_of_digits cs = Inr v'" "v = - v'"
      by (cases "int_of_digits cs") (auto simp: int_of_string_def)
    then obtain groups where
      g: "cs = join_groups groups" "groups \<noteq> []"
       "list_all (\<lambda>g. g \<noteq> [] \<and> list_all is_digit g) groups"
       "length (concat groups) \<le> 4300" "v = - decimal (concat groups)"
      by (auto simp: int_of_digits_Inr)
    have "?t = ws1 @ ''-'' @ join_groups groups @ ws2"
      using d(1) s minus g(1) by simp
    then show ?thesis unfolding int_literal_def using d(2,3) g(2-5)
      by (intro exI [of _ ws1] exI [of _ "''-''"] exI [of _ groups] exI [of _ ws2]) simp
  next
    case plus
    with a s have "int_of_digits cs = Inr v" by (simp add: int_of_string_def)
    then obtain groups where
      g: "cs = join_groups groups" "groups \<noteq> []"
       "list_all (\<lambda>g. g \<noteq> [] \<and> list_all is_digit g) groups"
       "length (concat groups) \<le> 4300" "v = decimal (concat groups)"
      by (auto simp: int_of_digits_Inr)
    have "?t = ws1 @ ''+'' @ join_groups groups @ ws2"
      using d(1) s plus g(1) by simp
    then show ?thesis unfolding int_literal_def using d(2,3) g(2-5)
      by (intro exI [of _ ws1] exI [of _ "''+''"] exI [of _ groups] exI [of _ ws2]) simp
  next
    case none
    with a s have "int_of_digits (c # cs) = Inr v" by (simp add: int_of_string_def)
    then obtain groups where
      g: "c # cs = join_groups groups" "groups \<noteq> []"
       "list_all (\<lambda>g. g \<noteq> [] \<and> list_all is_digit g) groups"
       "length (concat groups) \<le> 4300" "v = decimal (concat groups)"
      by (auto simp: int_of_digits_Inr)
    have "?t = ws1 @ [] @ join_groups groups @ ws2"
      using d(1) s g(1) by simp
    then show ?thesis unfolding int_literal_def using d(2,3) g(2-5)
      by (intro exI [of _ ws1] exI [of _ "[]"] exI [of _ groups] exI [of _ ws2]) simp
  qed
next
  let ?t = "to_ascii s"
  assume "int_literal ?t v"
  then obtain ws1 sgn groups ws2 where
    n: "?t = ws1 @ sgn @ join_groups groups @ ws2"
       "list_all is_space ws1" "list_all is_space ws2"
       "sgn = [] \<or> sgn = ''+'' \<or> sgn = ''-''"
       "groups \<noteq> []" "list_all (\<lambda>g. g \<noteq> [] \<and> list_all is_digit g) groups"
       "length (concat groups) \<le> 4300"
       "v = (if sgn = ''-'' then - decimal (concat groups) else decimal (concat groups))"
    unfolding int_literal_def by blast
  let ?b = "join_groups groups"
  have ok: "digits_ok ?b" using n(5,6) by (rule groups_digits_ok)
  from digits_ok_hd [OF ok] obtain c cs where b: "?b = c # cs" "is_digit c" by blast
  have l: "is_digit (last ?b)" using ok by (rule digits_ok_last)
  have val: "int_of_digits ?b = Inr (decimal (concat groups))"
    unfolding int_of_digits_Inr using n(5-7) by blast
  have c: "c \<noteq> CHR ''-''" "c \<noteq> CHR ''+''" using b(2) by (auto simp: is_digit_def)
  have sp: "\<not> is_space (CHR ''-'')" "\<not> is_space (CHR ''+'')" by (simp_all add: is_space_def)
  have lastm: "last (sgn @ ?b) = last ?b" using b(1) by simp
  have "strip (ws1 @ (sgn @ ?b) @ ws2) = sgn @ ?b"
  proof (rule strip_exact)
    show "sgn @ ?b \<noteq> []" using b(1) by simp
    show "\<not> is_space (hd (sgn @ ?b))"
      using n(4) b sp digit_not_space [of c] by auto
    show "\<not> is_space (last (sgn @ ?b))" using l lastm digit_not_space by simp
  qed (rule n(2), rule n(3))
  then have st: "strip ?t = sgn @ ?b" using n(1) by simp
  from n(4) show "int_of_string s = Inr v"
  proof (elim disjE)
    assume "sgn = []"
    then show ?thesis using st b c val n(8) by (simp add: int_of_string_def)
  next
    assume "sgn = ''+''"
    then show ?thesis using st val n(8) by (simp add: int_of_string_def)
  next
    assume "sgn = ''-''"
    then show ?thesis using st val n(8) by (simp add: int_of_string_def)
  qed
qed

lemma create_stocks_Inr:
  "create_stocks feed ids = Inr (stocks, r) \<longleftrightarrow>
   (\<exists>matched. stocks_loop feed ids [] = Inr (matched, r)
        \<and> stocks = matched @ map (\<lambda>x. \<lparr>offer_id = x, stock = 0\<rparr>) r)"
  by (auto simp: create_stocks_def split: sum.splits)

lemma create_stocks_mset:
  assumes "create_stocks feed ids = Inr (stocks, r)"
  shows "mset (map offer_id stocks) = mset ids"
proof -
  from assms obtain matched where
    l: "stocks_loop feed ids [] = Inr (matched, r)" and
    s: "stocks = matched @ map (\<lambda>x. \<lparr>offer_id = x, stock = 0\<rparr>) r"
    by (auto simp: create_stocks_Inr)
  have "map offer_id (map (\<lambda>x. \<lparr>offer_id = x, stock = 0\<rparr>) r) = r"
    by (induction r) simp_all
  then have "mset (map offer_id stocks) = mset (map offer_id matched) + mset r"
    using s by simp
  then show ?thesis using stocks_loop_mset [OF l] by simp
qed

lemma create_stocks_zero_fill:
  assumes "create_stocks feed ids = Inr (stocks, r)" "x \<in> set r"
  shows "\<lparr>offer_id = x, stock = 0\<rparr> \<in> set stocks"
  using assms by (auto simp: create_stocks_Inr)

lemma create_stocks_unmatched_zero:
  assumes "create_stocks feed ids = Inr (stocks, r)" "x \<in> set ids" "x \<notin> set (codes feed)"
  shows "\<lparr>offer_id = x, stock = 0\<rparr> \<in> set stocks"
proof -
  from assms(1) obtain matched where l: "stocks_loop feed ids [] = Inr (matched, r)"
    by (auto simp: create_stocks_Inr)
  have "x \<in> set r" using stocks_loop_unmatched_stays [OF l assms(2,3)] .
  then show ?thesis using assms(1) by (rule create_stocks_zero_fill [rotated])
qed

lemma create_stocks_distinct_residual:
  assumes "create_stocks feed ids = Inr (stocks, r)" "distinct ids"
  shows "r = filter (\<lambda>x. x \<notin> set (codes feed)) ids"
proof -
  from assms(1) obtain matched where l: "stocks_loop feed ids [] = Inr (matched, r)"
    by (auto simp: create_stocks_Inr)
  show ?thesis using stocks_loop_distinct_residual [OF l assms(2)] .
qed

lemma create_prices_ids:
  "create_prices feed ids = Inr prices \<Longrightarrow>
   map price_offer_id prices = filter (\<lambda>c. c \<in> set ids) (codes feed)"
  unfolding create_prices_def using prices_loop_ids [of feed ids "[]" prices] by simp

lemma create_stocks_example:
  "create_stocks feed_123 [''123'', ''456'']
     = Inr ([\<lparr>offer_id = ''123'', stock = 5\<rparr>, \<lparr>offer_id = ''456'', stock = 0\<rparr>], [''456''])"
  by (simp add: feed_123_def create_stocks_def str_nat.simps digit_char_def)

text \<open>
  Claim C1 as stated fails for \<open>create_prices\<close>: on the catalog \<open>["123", "456"]\<close> and
  a feed whose only record has code 123, it returns one update, for \<open>"123"\<close>; the
  identifier \<open>"456"\<close> receives none.
\<close>

theorem create_prices_omits_unmatched:
  "create_prices feed_123 [''123'', ''456'']
     = Inr [\<lparr>auto_action_enabled = ''UNKNOWN'', currency_code = ''RUB'',
             price_offer_id = ''123'', old_price = ''0'', price = ''5990''\<rparr>]
   \<and> ''456'' \<notin> set (map price_offer_id
         [\<lparr>auto_action_enabled = ''UNKNOWN'', currency_code = ''RUB'',
           price_offer_id = ''123'', old_price = ''0'', price = ''5990''\<rparr>])"
  by (simp add: feed_123_def create_prices_def str_nat.simps digit_char_def
        re_sub_non_digits_def is_digit_def)

text \<open>
  Claim C1, amended. When \<open>create_stocks\<close> returns, the identifiers of its updates are
  the catalog identifiers, each as many times as the catalog holds it (so exactly once
  when the catalog has no duplicates), and every catalog identifier that no feed record
  carries has an update with stock 0. \<open>create_prices\<close> has no such fill: when it returns,
  its updates are, in feed order, one for each feed record whose code is in the catalog.
  For the catalog \<open>["123", "456"]\<close> and the feed record with code 123 and quantity 5,
  \<open>create_stocks\<close> returns the update of \<open>"123"\<close> with stock 5 and the update of
  \<open>"456"\<close> with stock 0.
\<close>

theorem reconciler_updates:
  "(create_stocks watch_remnants offer_ids = Inr (stocks, rest) \<longrightarrow>
      mset (map offer_id stocks) = mset offer_ids
      \<and> (distinct offer_ids \<longrightarrow> distinct (map offer_id stocks))
      \<and> (\<forall>x \<in> set offer_ids. x \<notin> set (codes watch_remnants)
            \<longrightarrow> \<lparr>offer_id = x, stock = 0\<rparr> \<in> set stocks))
   \<and> (create_prices watch_remnants offer_ids = Inr prices \<longrightarrow>
      map price_offer_id prices = filter (\<lambda>c. c \<in> set offer_ids) (codes watch_remnants))
   \<and> create_stocks feed_123 [''123'', ''456'']
       = Inr ([\<lparr>offer_id = ''123'', stock = 5\<rparr>, \<lparr>offer_id = ''456'', stock = 0\<rparr>], [''456''])"
proof (intro conjI impI ballI)
  assume a: "create_stocks watch_remnants offer_ids = Inr (stocks, rest)"
  show m: "mset (map offer_id stocks) = mset offer_ids" using a by (rule create_stocks_mset)
  show "distinct (map offer_id stocks)" if "distinct offer_ids"
    using that m by (metis mset_eq_imp_distinct_iff)
  show "\<lparr>offer_id = x, stock = 0\<rparr> \<in> set stocks"
    if "x \<in> set offer_ids" "x \<notin> set (codes watch_remnants)" for x
    using a that by (rule create_stocks_unmatched_zero)
next
  assume "create_prices watch_remnants offer_ids = Inr prices"
  then show "map price_offer_id prices = filter (\<lambda>c. c \<in> set offer_ids) (codes watch_remnants)"
    by (rule create_prices_ids)
next
  show "create_stocks feed_123 [''123'', ''456'']
       = Inr ([\<lparr>offer_id = ''123'', stock = 5\<rparr>, \<lparr>offer_id = ''456'', stock = 0\<rparr>], [''456''])"
    by (rule create_stocks_example)
qed

lemma create_stocks_Inl:
  "create_stocks feed ids = Inl e \<longleftrightarrow> stocks_loop feed ids [] = Inl e"
  by (auto simp: create_stocks_def split: sum.splits)

lemma stocks_loop_reach:
  assumes "stocks_loop pre ids [] = Inr (m0, catalog)" "py_str (kod w) \<in> set catalog"
  shows "stocks_loop (pre @ w # post) ids [] =
     (case quantity_rule (kolichestvo w) of
        Inl e \<Rightarrow> Inl e
      | Inr n \<Rightarrow> stocks_loop post (remove1 (py_str (kod w)) catalog)
                   (m0 @ [\<lparr>offer_id = py_str (kod w), stock = n\<rparr>]))"
  using assms by (simp add: stocks_loop_append stocks_loop_Cons del: stocks_loop.simps)

lemma create_stocks_reach_raises:
  assumes "create_stocks pre ids = Inr (s0, catalog)" "py_str (kod w) \<in> set catalog"
    "quantity_rule (kolichestvo w) = Inl e"
  shows "create_stocks (pre @ w # post) ids = Inl e"
proof -
  from assms(1) obtain m0 where "stocks_loop pre ids [] = Inr (m0, catalog)"
    by (auto simp: create_stocks_Inr)
  from stocks_loop_reach [OF this assms(2)] assms(3) show ?thesis
    by (simp add: create_stocks_Inl)
qed

lemma create_stocks_reach_item:
  assumes "create_stocks pre ids = Inr (s0, catalog)" "py_str (kod w) \<in> set catalog"
    "quantity_rule (kolichestvo w) = Inr n"
    "create_stocks (pre @ w # post) ids = Inr (stocks, r)"
  shows "\<lparr>offer_id = py_str (kod w), stock = n\<rparr> \<in> set stocks"
proof -
  from assms(1) obtain m0 where "stocks_loop pre ids [] = Inr (m0, catalog)"
    by (auto simp: create_stocks_Inr)
  from stocks_loop_reach [OF this assms(2)] assms(3)
  have e: "stocks_loop (pre @ w # post) ids [] =
      stocks_loop post (remove1 (py_str (kod w)) catalog)
        (m0 @ [\<lparr>offer_id = py_str (kod w), stock = n\<rparr>])" by simp
  from assms(4) obtain matched where
    l: "stocks_loop (pre @ w # post) ids [] = Inr (matched, r)" and
    s: "stocks = matched @ map (\<lambda>x. \<lparr>offer_id = x, stock = 0\<rparr>) r"
    by (auto simp: create_stocks_Inr)
  from l e obtain new where "matched = (m0 @ [\<lparr>offer_id = py_str (kod w), stock = n\<rparr>]) @ new"
    using stocks_loop_prefix by metis
  then show ?thesis using s by simp
qed

lemma create_stocks_reach_last:
  assumes "create_stocks pre ids = Inr (s0, catalog)" "py_str (kod w) \<in> set catalog"
    "quantity_rule (kolichestvo w) = Inr n"
  shows "\<exists>stocks r. create_stocks (pre @ [w]) ids = Inr (stocks, r)"
proof -
  from assms(1) obtain m0 where "stocks_loop pre ids [] = Inr (m0, catalog)"
    by (auto simp: create_stocks_Inr)
  from stocks_loop_reach [OF this assms(2), of "[]"] assms(3) show ?thesis
    by (simp add: create_stocks_def)
qed

lemma market_create_stocks_Inr:
  "market_create_stocks d feed ids wh = Inr (ms, r) \<longleftrightarrow>
   (\<exists>stocks. create_stocks feed ids = Inr (stocks, r) \<and> ms = map (to_market wh d) stocks)"
  by (cases "create_stocks feed ids") (auto simp: market_create_stocks_sim)

lemma market_create_stocks_Inl:
  "market_create_stocks d feed ids wh = Inl e \<longleftrightarrow> create_stocks feed ids = Inl e"
  by (cases "create_stocks feed ids") (auto simp: market_create_stocks_sim)

lemma stocks_loop_acc:
  "stocks_loop feed ids acc = map_sum id (map_prod ((@) acc) id) (stocks_loop feed ids [])"
proof (induction feed arbitrary: ids acc)
  case Nil
  then show ?case by simp
next
  case (Cons w rest)
  let ?c = "py_str (kod w)"
  show ?case
  proof (cases "?c \<in> set ids")
    case False
    then show ?thesis
      using Cons.IH [of ids acc] by (simp add: stocks_loop_Cons del: stocks_loop.simps)
  next
    case True
    show ?thesis
    proof (cases "quantity_rule (kolichestvo w)")
      case (Inl e)
      then show ?thesis using True by (simp add: stocks_loop_Cons del: stocks_loop.simps)
    next
      case (Inr n)
      let ?i = "\<lparr>offer_id = ?c, stock = n\<rparr>"
      have 1: "stocks_loop (w # rest) ids acc = stocks_loop rest (remove1 ?c ids) (acc @ [?i])"
        and 2: "stocks_loop (w # rest) ids [] = stocks_loop rest (remove1 ?c ids) [?i]"
        using True Inr by (simp_all add: stocks_loop_Cons del: stocks_loop.simps)
      have 3: "stocks_loop rest (remove1 ?c ids) (acc @ [?i])
          = map_sum id (map_prod ((@) (acc @ [?i])) id) (stocks_loop rest (remove1 ?c ids) [])"
        by (rule Cons.IH)
      have 4: "stocks_loop rest (remove1 ?c ids) [?i]
          = map_sum id (map_prod ((@) [?i]) id) (stocks_loop rest (remove1 ?c ids) [])"
        by (rule Cons.IH)
      show ?thesis
        unfolding 1 2 3 4
        by (cases "stocks_loop rest (remove1 ?c ids) []") auto
    qed
  qed
qed

lemma create_stocks_Nil:
  "create_stocks [] ids = Inr (map (\<lambda>x. \<lparr>offer_id = x, stock = 0\<rparr>) ids, ids)"
  by (simp add: create_stocks_def)

lemma create_stocks_Cons_match:
  assumes "py_str (kod w) \<in> set ids"
  shows "create_stocks (w # rest) ids =
     (case quantity_rule (kolichestvo w) of
        Inl e \<Rightarrow> Inl e
      | Inr n \<Rightarrow> map_sum id (map_prod ((#) \<lparr>offer_id = py_str (kod w), stock = n\<rparr>) id)
                   (create_stocks rest (remove1 (py_str (kod w)) ids)))"
proof (cases "quantity_rule (kolichestvo w)")
  case (Inl e)
  then show ?thesis
    using assms by (simp add: create_stocks_def stocks_loop_Cons del: stocks_loop.simps)
next
  case (Inr n)
  let ?c = "py_str (kod w)"
  let ?i = "\<lparr>offer_id = ?c, stock = n\<rparr>"
  have "stocks_loop (w # rest) ids [] = stocks_loop rest (remove1 ?c ids) [?i]"
    using assms Inr by (simp add: stocks_loop_Cons del: stocks_loop.simps)
  also have "\<dots> = map_sum id (map_prod ((@) [?i]) id) (stocks_loop rest (remove1 ?c ids) [])"
    by (rule stocks_loop_acc)
  finally show ?thesis
    using Inr unfolding create_stocks_def
    by (cases "stocks_loop rest (remove1 ?c ids) []") auto
qed

lemma create_stocks_Cons_skip:
  "py_str (kod w) \<notin> set ids \<Longrightarrow> create_stocks (w # rest) ids = create_stocks rest ids"
  by (simp add: create_stocks_def stocks_loop_Cons del: stocks_loop.simps)

lemma count_list_remove1:
  "count_list (remove1 a xs) c = count_list xs c - (if a = c \<and> a \<in> set xs then 1 else 0)"
  by (induction xs) auto

lemma stocks_loop_count:
  "stocks_loop feed ids acc = Inr (out, r)
   \<Longrightarrow> count_list r c = count_list ids c - count_list (codes feed) c"
proof (induction feed arbitrary: ids acc)
  case Nil
  then show ?case by (simp add: codes_def)
next
  case (Cons w rest)
  let ?c = "py_str (kod w)"
  show ?case
  proof (cases "?c \<in> set ids")
    case True
    with Cons.prems obtain n where
      l: "stocks_loop rest (remove1 ?c ids) (acc @ [\<lparr>offer_id = ?c, stock = n\<rparr>]) = Inr (out, r)"
      by (auto simp: stocks_loop_Cons simp del: stocks_loop.simps split: sum.splits)
    have "count_list r c = count_list (remove1 ?c ids) c - count_list (codes rest) c"
      using Cons.IH [OF l] .
    then show ?thesis using True by (simp add: count_list_remove1 codes_def)
  next
    case False
    with Cons.prems have l: "stocks_loop rest ids acc = Inr (out, r)"
      by (simp add: stocks_loop_Cons del: stocks_loop.simps)
    have "count_list r c = count_list ids c - count_list (codes rest) c"
      using Cons.IH [OF l] .
    moreover have "count_list ids ?c = 0" using False by (simp add: count_list_0_iff)
    ultimately show ?thesis by (auto simp: codes_def)
  qed
qed

lemma residual_mem:
  assumes "stocks_loop feed ids acc = Inr (out, r)"
  shows "c \<in> set r \<longleftrightarrow> count_list (codes feed) c < count_list ids c"
proof -
  have "c \<in> set r \<longleftrightarrow> 0 < count_list r c"
    using count_list_0_iff [of r c] by auto
  then show ?thesis using stocks_loop_count [OF assms, of c] by auto
qed

lemma create_stocks_residual_mem:
  assumes "create_stocks feed ids = Inr (stocks, r)"
  shows "c \<in> set r \<longleftrightarrow> count_list (codes feed) c < count_list ids c"
proof -
  from assms obtain matched where "stocks_loop feed ids [] = Inr (matched, r)"
    by (auto simp: create_stocks_Inr)
  then show ?thesis by (rule residual_mem)
qed

lemma create_stocks_raises_early:
  "create_stocks pre ids = Inl e \<Longrightarrow> create_stocks (pre @ post) ids = Inl e"
  by (simp add: create_stocks_Inl stocks_loop_append)

lemma create_stocks_skip:
  assumes "count_list ids (py_str (kod w)) \<le> count_list (codes pre) (py_str (kod w))"
  shows "create_stocks (pre @ w # post) ids = create_stocks (pre @ post) ids"
proof (cases "stocks_loop pre ids []")
  case (Inl e)
  then show ?thesis by (simp add: create_stocks_def stocks_loop_append)
next
  case (Inr p)
  obtain out r where p: "p = (out, r)" by (cases p)
  have "py_str (kod w) \<notin> set r"
    using residual_mem [OF Inr [unfolded p], of "py_str (kod w)"] assms by simp
  then have "stocks_loop (w # post) r out = stocks_loop post r out"
    by (simp add: stocks_loop_Cons del: stocks_loop.simps)
  then show ?thesis
    using Inr p by (simp add: create_stocks_def stocks_loop_append del: stocks_loop.simps)
qed

lemma str_nat_digits: "list_all is_digit (str_nat n)"
proof (induction n rule: str_nat.induct)
  case (1 n)
  have d: "is_digit (digit_char k)" if "k < 10" for k
  proof -
    from that have "k \<in> {0, 1, 2, 3, 4, 5, 6, 7, 8, 9}" by auto
    then show ?thesis by (auto simp: digit_char_def is_digit_def)
  qed
  show ?case
  proof (cases "n < 10")
    case True
    then show ?thesis using d [of n] by (simp add: str_nat.simps [of n])
  next
    case False
    then show ?thesis using 1 d [of "n mod 10"] by (simp add: str_nat.simps [of n])
  qed
qed

lemma str_nat_not_Nil: "str_nat n \<noteq> []"
  by (simp add: str_nat.simps [of n])

lemma str_nat_one: "str_nat n = ''1'' \<longleftrightarrow> n = 1"
proof
  assume a: "str_nat n = ''1''"
  show "n = 1"
  proof (cases "n < 10")
    case True
    then have "n \<in> {0, 1, 2, 3, 4, 5, 6, 7, 8, 9}" by auto
    then show ?thesis using a by (auto simp: str_nat.simps [of n] digit_char_def)
  next
    case False
    then have "length (str_nat n) = Suc (length (str_nat (n div 10)))"
      by (simp add: str_nat.simps [of n])
    then show ?thesis using a str_nat_not_Nil [of "n div 10"] by simp
  qed
next
  assume "n = 1"
  then show "str_nat n = ''1''" by (simp add: str_nat.simps [of "Suc 0"] digit_char_def)
qed

lemma py_str_CInt_sentinels:
  "py_str (CInt i) \<noteq> ''>10''" "py_str (CInt i) = ''1'' \<longleftrightarrow> i = 1"
proof -
  have g: "\<not> is_digit (CHR ''>'')" "\<not> is_digit (CHR ''-'')" by (simp_all add: is_digit_def)
  have n: "str_nat k \<noteq> ''>10''" for k
  proof
    assume "str_nat k = ''>10''"
    then have "list_all is_digit ''>10''" using str_nat_digits [of k] by simp
    then show False using g by simp
  qed
  show "py_str (CInt i) \<noteq> ''>10''" using n by simp
  show "py_str (CInt i) = ''1'' \<longleftrightarrow> i = 1"
  proof (cases "i < 0")
    case True
    then show ?thesis by simp
  next
    case False
    then show ?thesis using str_nat_one [of "nat i"] by auto
  qed
qed

lemma quantity_rule_CInt: "quantity_rule (CInt i) = Inr (if i = 1 then 0 else i)"
  using py_str_CInt_sentinels [of i] by (simp add: quantity_rule_def del: py_str.simps)

lemma quantity_rule_CStr:
  assumes "s \<noteq> ''>10''" "s \<noteq> ''1''"
  shows "quantity_rule (CStr s) = Inr v \<longleftrightarrow> int_literal (to_ascii s) v"
    and "quantity_rule (CStr s) = Inl e \<longrightarrow> e = ValueError"
  using assms by (auto simp: quantity_rule_def int_of_string_literal dest: int_of_string_cases)

lemma to_ascii_ascii: "list_all (\<lambda>c. of_char c < (128::nat)) s \<Longrightarrow> to_ascii s = s"
  by (induction s) simp_all

lemma market_create_stocks_Nil:
  "market_create_stocks d [] ids wh =
     Inr (map (\<lambda>x. \<lparr>sku = x, warehouseId = wh,
                     sku_items = [\<lparr>item_count = 0, item_type = ''FIT'', updatedAt = d\<rparr>]\<rparr>) ids, ids)"
  by (simp add: market_create_stocks_def)

lemma market_create_stocks_Cons_match:
  assumes "py_str (kod w) \<in> set ids"
  shows "market_create_stocks d (w # rest) ids wh =
     (case quantity_rule (kolichestvo w) of
        Inl e \<Rightarrow> Inl e
      | Inr n \<Rightarrow>
          map_sum id
            (map_prod ((#) \<lparr>sku = py_str (kod w), warehouseId = wh,
                sku_items = [\<lparr>item_count = n, item_type = ''FIT'', updatedAt = d\<rparr>]\<rparr>) id)
            (market_create_stocks d rest (remove1 (py_str (kod w)) ids) wh))"
proof (cases "quantity_rule (kolichestvo w)")
  case (Inl e)
  then show ?thesis
    using create_stocks_Cons_match [OF assms, of rest] by (simp add: market_create_stocks_sim)
next
  case (Inr n)
  then show ?thesis
    using create_stocks_Cons_match [OF assms, of rest]
    by (cases "create_stocks rest (remove1 (py_str (kod w)) ids)")
       (auto simp: market_create_stocks_sim to_market_def)
qed

lemma market_create_stocks_Cons_skip:
  "py_str (kod w) \<notin> set ids
   \<Longrightarrow> market_create_stocks d (w # rest) ids wh = market_create_stocks d rest ids wh"
  by (simp add: market_create_stocks_sim create_stocks_Cons_skip)

lemma create_stocks_reached:
  assumes "create_stocks pre ids = Inr (s0, r0)"
    "count_list (codes pre) (py_str (kod w)) < count_list ids (py_str (kod w))"
  shows "case quantity_rule (kolichestvo w) of
      Inl e \<Rightarrow> create_stocks (pre @ w # post) ids = Inl e
    | Inr n \<Rightarrow>
        (\<exists>stocks rest. create_stocks (pre @ [w]) ids = Inr (stocks, rest))
        \<and> (\<forall>stocks rest. create_stocks (pre @ w # post) ids = Inr (stocks, rest)
              \<longrightarrow> \<lparr>offer_id = py_str (kod w), stock = n\<rparr> \<in> set stocks)"
proof -
  have c: "py_str (kod w) \<in> set r0"
    using create_stocks_residual_mem [OF assms(1)] assms(2) by simp
  show ?thesis
  proof (cases "quantity_rule (kolichestvo w)")
    case (Inl e)
    then show ?thesis using create_stocks_reach_raises [OF assms(1) c] by simp
  next
    case (Inr n)
    then show ?thesis
      using create_stocks_reach_last [OF assms(1) c Inr]
        create_stocks_reach_item [OF assms(1) c Inr, of post]
      by simp
  qed
qed

lemma market_create_stocks_reached:
  assumes "market_create_stocks d pre ids wh = Inr (s0, r0)"
    "count_list (codes pre) (py_str (kod w)) < count_list ids (py_str (kod w))"
  shows "case quantity_rule (kolichestvo w) of
      Inl e \<Rightarrow> market_create_stocks d (pre @ w # post) ids wh = Inl e
    | Inr n \<Rightarrow>
        (\<exists>stocks rest. market_create_stocks d (pre @ [w]) ids wh = Inr (stocks, rest))
        \<and> (\<forall>stocks rest. market_create_stocks d (pre @ w # post) ids wh = Inr (stocks, rest)
              \<longrightarrow> \<lparr>sku = py_str (kod w), warehouseId = wh,
                    sku_items = [\<lparr>item_count = n, item_type = ''FIT'', updatedAt = d\<rparr>]\<rparr>
                  \<in> set stocks)"
proof -
  from assms(1) obtain ss0 where s0: "create_stocks pre ids = Inr (ss0, r0)"
    by (auto simp: market_create_stocks_Inr)
  note r = create_stocks_reached [OF s0 assms(2), of post]
  show ?thesis
  proof (cases "quantity_rule (kolichestvo w)")
    case (Inl e)
    then show ?thesis using r by (simp add: market_create_stocks_Inl)
  next
    case (Inr n)
    from r Inr have
      ex: "\<exists>stocks rest. create_stocks (pre @ [w]) ids = Inr (stocks, rest)" and
      al: "\<And>stocks rest. create_stocks (pre @ w # post) ids = Inr (stocks, rest)
              \<Longrightarrow> \<lparr>offer_id = py_str (kod w), stock = n\<rparr> \<in> set stocks"
      by simp_all
    have "\<exists>stocks rest. market_create_stocks d (pre @ [w]) ids wh = Inr (stocks, rest)"
      using ex by (auto simp: market_create_stocks_Inr)
    moreover have "\<lparr>sku = py_str (kod w), warehouseId = wh,
              sku_items = [\<lparr>item_count = n, item_type = ''FIT'', updatedAt = d\<rparr>]\<rparr> \<in> set stocks"
      if "market_create_stocks d (pre @ w # post) ids wh = Inr (stocks, rest)" for stocks rest
    proof -
      from that obtain ss where
        ss: "create_stocks (pre @ w # post) ids = Inr (ss, rest)" and
        m: "stocks = map (to_market wh d) ss"
        by (auto simp: market_create_stocks_Inr)
      have "to_market wh d \<lparr>offer_id = py_str (kod w), stock = n\<rparr> \<in> set stocks"
        unfolding m using al [OF ss] by simp
      then show ?thesis by (simp add: to_market_def)
    qed
    ultimately show ?thesis using Inr by simp
  qed
qed

lemma quantity_rule_CFloat:
  "repr \<noteq> ''>10'' \<Longrightarrow> repr \<noteq> ''1''
   \<Longrightarrow> quantity_rule (CFloat x repr) = Inr (if x < 0 then \<lceil>x\<rceil> else \<lfloor>x\<rfloor>)"
  by (simp add: quantity_rule_def trunc_def)

lemma quantity_rule_half: "quantity_rule (CFloat 2.5 ''2.5'') = Inr 2"
  by (simp add: quantity_rule_def trunc_def)

lemma quantity_rule_NaN_None:
  "quantity_rule CNaN = Inl ValueError" "quantity_rule CNone = Inl TypeError"
  by (simp_all add: quantity_rule_def)

lemma to_ascii_arabic_42: "to_ascii arabic_42 = ''42''"
  by (simp add: arabic_42_def utf8_tail_def code_point_def ascii_of_def decimal_of_def
      decimal_zeros_def unicode_spaces_def digit_char_def)

lemma quantity_rule_sentinels:
  "quantity_rule (CStr ''>10'') = Inr 100" "quantity_rule (CStr ''1'') = Inr 0"
  by (simp_all add: quantity_rule_def)

lemma quantity_rule_42: "quantity_rule (CStr ''42'') = Inr 42"
  by code_simp

lemma quantity_rule_arabic_42: "quantity_rule (CStr arabic_42) = Inr 42"
proof -
  have "int_of_string ''42'' = Inr 42" by code_simp
  then have "int_of_string arabic_42 = Inr 42"
    by (simp add: int_of_string_def to_ascii_arabic_42)
  moreover have "arabic_42 \<noteq> ''>10''" "arabic_42 \<noteq> ''1''" by (simp_all add: arabic_42_def)
  ultimately show ?thesis by (simp add: quantity_rule_def)
qed

lemma quantity_rule_signed: "quantity_rule (CStr '' -1_000 '') = Inr (- 1000)"
  by code_simp

lemma quantity_rule_separator: "quantity_rule (CStr (CHR 0x1F # ''7'')) = Inl ValueError"
  by code_simp

lemma quantity_rule_12abc: "quantity_rule (CStr ''12abc'') = Inl ValueError"
  by code_simp

lemma quantity_rule_point: "quantity_rule (CStr ''1.5'') = Inl ValueError"
  by code_simp

lemma quantity_rule_many: "quantity_rule (CStr ''many'') = Inl ValueError"
  by code_simp

lemma quantity_rule_7: "quantity_rule (CStr ''7'') = Inr 7"
  by code_simp

lemma create_stocks_a5:
  "create_stocks [watch_a5] [''a'', ''b'']
     = Inr ([\<lparr>offer_id = ''a'', stock = 5\<rparr>, \<lparr>offer_id = ''b'', stock = 0\<rparr>], [''b''])"
  by code_simp

lemma market_create_stocks_a5:
  "market_create_stocks ''t'' [watch_a5] [''a'', ''b''] ''w''
     = Inr ([\<lparr>sku = ''a'', warehouseId = ''w'',
              sku_items = [\<lparr>item_count = 5, item_type = ''FIT'', updatedAt = ''t''\<rparr>]\<rparr>,
             \<lparr>sku = ''b'', warehouseId = ''w'',
              sku_items = [\<lparr>item_count = 0, item_type = ''FIT'', updatedAt = ''t''\<rparr>]\<rparr>],
            [''b''])"
  by code_simp

text \<open>
  Claim C2 as stated fails for a feed that carries a code twice while the catalog holds it
  once: the second record's code is in the catalog, its quantity \<open>"many"\<close> is neither a
  number nor a sentinel, and yet \<open>create_stocks\<close> returns, in both modules, with the stock
  of the first record; the first record has taken the code out of the list.
\<close>

theorem duplicate_code_skips_quantity:
  "py_str (kod watch_a_bad) \<in> set [''a'']
   \<and> quantity_rule (kolichestvo watch_a_bad) = Inl ValueError
   \<and> create_stocks [watch_a5, watch_a_bad] [''a'']
       = Inr ([\<lparr>offer_id = ''a'', stock = 5\<rparr>], [])
   \<and> market_create_stocks ''t'' [watch_a5, watch_a_bad] [''a''] ''w''
       = Inr ([\<lparr>sku = ''a'', warehouseId = ''w'',
                sku_items = [\<lparr>item_count = 5, item_type = ''FIT'', updatedAt = ''t''\<rparr>]\<rparr>], [])"
proof (intro conjI)
  show "py_str (kod watch_a_bad) \<in> set [''a'']" by (simp add: watch_a_bad_def)
  show "quantity_rule (kolichestvo watch_a_bad) = Inl ValueError" by code_simp
  show "create_stocks [watch_a5, watch_a_bad] [''a'']
       = Inr ([\<lparr>offer_id = ''a'', stock = 5\<rparr>], [])" by code_simp
  show "market_create_stocks ''t'' [watch_a5, watch_a_bad] [''a''] ''w''
       = Inr ([\<lparr>sku = ''a'', warehouseId = ''w'',
                sku_items = [\<lparr>item_count = 5, item_type = ''FIT'', updatedAt = ''t''\<rparr>]\<rparr>], [])"
    by code_simp
qed

text \<open>
  Claim C2, amended. In both modules \<open>create_stocks\<close> walks the feed in order, starting
  from the zero fill of the whole catalog for the empty feed. A record whose code is in the
  catalog list at that moment contributes the update with the stock that the quantity rule
  gives and takes one occurrence of the code out of the list, or, if the rule raises,
  \<open>create_stocks\<close> raises the same exception; a record whose code is not in the list is
  passed over. In terms of the arguments as passed: a record is reached with its code in the
  list exactly when the records before it raised nothing and carry the code fewer times
  than the catalog does; a record whose code the earlier records carry at least as often
  as the catalog changes nothing, whatever its quantity; an exception of the records
  before it stands.

  The quantity rule: \<open>">10"\<close> gives 100 and \<open>"1"\<close> gives 0. Any other string gives
  \<open>v\<close> exactly when, brought to ASCII, it is an integer literal of value \<open>v\<close>: blanks,
  an optional sign, groups of decimal digits joined by single underscores, at most 4300
  digits, blanks; \<open>"42"\<close> gives 42, also in Arabic-Indic digits. Every other string
  raises \<open>ValueError\<close>, such as \<open>"12abc"\<close>, \<open>"1.5"\<close> and a digit after the character
  \<open>0x1F\<close>. An integer cell gives itself, except that 1 gives 0. A floating-point cell
  gives its value cut towards zero, without an exception; \<open>nan\<close> raises
  \<open>ValueError\<close> and \<open>None\<close> raises \<open>TypeError\<close>.
\<close>

theorem quantity_normalisation:
  "create_stocks [] offer_ids
     = Inr (map (\<lambda>x. \<lparr>offer_id = x, stock = 0\<rparr>) offer_ids, offer_ids)
   \<and> (py_str (kod watch) \<in> set offer_ids \<longrightarrow>
        create_stocks (watch # after) offer_ids =
          (case quantity_rule (kolichestvo watch) of
             Inl e \<Rightarrow> Inl e
           | Inr n \<Rightarrow>
               map_sum id (map_prod ((#) \<lparr>offer_id = py_str (kod watch), stock = n\<rparr>) id)
                 (create_stocks after (remove1 (py_str (kod watch)) offer_ids))))
   \<and> (py_str (kod watch) \<notin> set offer_ids \<longrightarrow>
        create_stocks (watch # after) offer_ids = create_stocks after offer_ids)
   \<and> market_create_stocks date [] offer_ids warehouse_id
     = Inr (map (\<lambda>x. \<lparr>sku = x, warehouseId = warehouse_id,
                      sku_items = [\<lparr>item_count = 0, item_type = ''FIT'',
                                     updatedAt = date\<rparr>]\<rparr>) offer_ids, offer_ids)
   \<and> (py_str (kod watch) \<in> set offer_ids \<longrightarrow>
        market_create_stocks date (watch # after) offer_ids warehouse_id =
          (case quantity_rule (kolichestvo watch) of
             Inl e \<Rightarrow> Inl e
           | Inr n \<Rightarrow>
               map_sum id
                 (map_prod ((#) \<lparr>sku = py_str (kod watch), warehouseId = warehouse_id,
                     sku_items = [\<lparr>item_count = n, item_type = ''FIT'',
                                    updatedAt = date\<rparr>]\<rparr>) id)
                 (market_create_stocks date after (remove1 (py_str (kod watch)) offer_ids)
                    warehouse_id)))
   \<and> (py_str (kod watch) \<notin> set offer_ids \<longrightarrow>
        market_create_stocks date (watch # after) offer_ids warehouse_id
          = market_create_stocks date after offer_ids warehouse_id)
   \<and> (create_stocks before offer_ids = Inr (stocks0, rest0)
        \<and> count_list (codes before) (py_str (kod watch))
            < count_list offer_ids (py_str (kod watch)) \<longrightarrow>
      (case quantity_rule (kolichestvo watch) of
         Inl e \<Rightarrow> create_stocks (before @ watch # after) offer_ids = Inl e
       | Inr n \<Rightarrow>
           (\<exists>stocks rest. create_stocks (before @ [watch]) offer_ids = Inr (stocks, rest))
           \<and> (\<forall>stocks rest. create_stocks (before @ watch # after) offer_ids = Inr (stocks, rest)
                 \<longrightarrow> \<lparr>offer_id = py_str (kod watch), stock = n\<rparr> \<in> set stocks)))
   \<and> (market_create_stocks date before offer_ids warehouse_id = Inr (mstocks0, mrest0)
        \<and> count_list (codes before) (py_str (kod watch))
            < count_list offer_ids (py_str (kod watch)) \<longrightarrow>
      (case quantity_rule (kolichestvo watch) of
         Inl e \<Rightarrow> market_create_stocks date (before @ watch # after) offer_ids warehouse_id = Inl e
       | Inr n \<Rightarrow>
           (\<exists>stocks rest. market_create_stocks date (before @ [watch]) offer_ids warehouse_id
                            = Inr (stocks, rest))
           \<and> (\<forall>stocks rest.
                 market_create_stocks date (before @ watch # after) offer_ids warehouse_id
                   = Inr (stocks, rest)
                 \<longrightarrow> \<lparr>sku = py_str (kod watch), warehouseId = warehouse_id,
                       sku_items = [\<lparr>item_count = n, item_type = ''FIT'', updatedAt = date\<rparr>]\<rparr>
                     \<in> set stocks)))
   \<and> (count_list offer_ids (py_str (kod watch))
          \<le> count_list (codes before) (py_str (kod watch)) \<longrightarrow>
        create_stocks (before @ watch # after) offer_ids
          = create_stocks (before @ after) offer_ids
        \<and> market_create_stocks date (before @ watch # after) offer_ids warehouse_id
          = market_create_stocks date (before @ after) offer_ids warehouse_id)
   \<and> (create_stocks before offer_ids = Inl e \<longrightarrow>
        create_stocks (before @ after) offer_ids = Inl e)
   \<and> (market_create_stocks date before offer_ids warehouse_id = Inl e \<longrightarrow>
        market_create_stocks date (before @ after) offer_ids warehouse_id = Inl e)
   \<and> quantity_rule (CStr ''>10'') = Inr 100
   \<and> quantity_rule (CStr ''1'') = Inr 0
   \<and> quantity_rule (CStr ''42'') = Inr 42
   \<and> (s \<noteq> ''>10'' \<and> s \<noteq> ''1'' \<longrightarrow>
        (quantity_rule (CStr s) = Inr v \<longleftrightarrow> int_literal (to_ascii s) v))
   \<and> (s \<noteq> ''>10'' \<and> s \<noteq> ''1'' \<and> quantity_rule (CStr s) = Inl e \<longrightarrow> e = ValueError)
   \<and> (list_all (\<lambda>c. of_char c < (128::nat)) s \<longrightarrow> to_ascii s = s)
   \<and> quantity_rule (CStr arabic_42) = Inr 42
   \<and> quantity_rule (CStr '' -1_000 '') = Inr (- 1000)
   \<and> quantity_rule (CStr (CHR 0x1F # ''7'')) = Inl ValueError
   \<and> quantity_rule (CStr ''12abc'') = Inl ValueError
   \<and> quantity_rule (CStr ''1.5'') = Inl ValueError
   \<and> quantity_rule (CInt i) = Inr (if i = 1 then 0 else i)
   \<and> (repr \<noteq> ''>10'' \<and> repr \<noteq> ''1'' \<longrightarrow>
        quantity_rule (CFloat x repr) = Inr (if x < 0 then \<lceil>x\<rceil> else \<lfloor>x\<rfloor>))
   \<and> quantity_rule CNaN = Inl ValueError
   \<and> quantity_rule CNone = Inl TypeError"
proof (intro conjI impI)
  show "create_stocks [] offer_ids
     = Inr (map (\<lambda>x. \<lparr>offer_id = x, stock = 0\<rparr>) offer_ids, offer_ids)"
    by (rule create_stocks_Nil)
  show "market_create_stocks date [] offer_ids warehouse_id
     = Inr (map (\<lambda>x. \<lparr>sku = x, warehouseId = warehouse_id,
                      sku_items = [\<lparr>item_count = 0, item_type = ''FIT'',
                                     updatedAt = date\<rparr>]\<rparr>) offer_ids, offer_ids)"
    by (rule market_create_stocks_Nil)
  show "create_stocks (watch # after) offer_ids =
          (case quantity_rule (kolichestvo watch) of
             Inl e \<Rightarrow> Inl e
           | Inr n \<Rightarrow>
               map_sum id (map_prod ((#) \<lparr>offer_id = py_str (kod watch), stock = n\<rparr>) id)
                 (create_stocks after (remove1 (py_str (kod watch)) offer_ids)))"
    if "py_str (kod watch) \<in> set offer_ids"
    using that by (rule create_stocks_Cons_match)
  show "create_stocks (watch # after) offer_ids = create_stocks after offer_ids"
    if "py_str (kod watch) \<notin> set offer_ids"
    using that by (rule create_stocks_Cons_skip)
  show "market_create_stocks date (watch # after) offer_ids warehouse_id =
          (case quantity_rule (kolichestvo watch) of
             Inl e \<Rightarrow> Inl e
           | Inr n \<Rightarrow>
               map_sum id
                 (map_prod ((#) \<lparr>sku = py_str (kod watch), warehouseId = warehouse_id,
                     sku_items = [\<lparr>item_count = n, item_type = ''FIT'',
                                    updatedAt = date\<rparr>]\<rparr>) id)
                 (market_create_stocks date after (remove1 (py_str (kod watch)) offer_ids)
                    warehouse_id))"
    if "py_str (kod watch) \<in> set offer_ids"
    using that by (rule market_create_stocks_Cons_match)
  show "market_create_stocks date (watch # after) offer_ids warehouse_id
          = market_create_stocks date after offer_ids warehouse_id"
    if "py_str (kod watch) \<notin> set offer_ids"
    using that by (rule market_create_stocks_Cons_skip)
  show "case quantity_rule (kolichestvo watch) of
         Inl e \<Rightarrow> create_stocks (before @ watch # after) offer_ids = Inl e
       | Inr n \<Rightarrow>
           (\<exists>stocks rest. create_stocks (before @ [watch]) offer_ids = Inr (stocks, rest))
           \<and> (\<forall>stocks rest. create_stocks (before @ watch # after) offer_ids = Inr (stocks, rest)
                 \<longrightarrow> \<lparr>offer_id = py_str (kod watch), stock = n\<rparr> \<in> set stocks)"
    if "create_stocks before offer_ids = Inr (stocks0, rest0)
        \<and> count_list (codes before) (py_str (kod watch))
            < count_list offer_ids (py_str (kod watch))"
    using that create_stocks_reached [of before offer_ids stocks0 rest0 watch after] by blast
  show "case quantity_rule (kolichestvo watch) of
         Inl e \<Rightarrow> market_create_stocks date (before @ watch # after) offer_ids warehouse_id = Inl e
       | Inr n \<Rightarrow>
           (\<exists>stocks rest. market_create_stocks date (before @ [watch]) offer_ids warehouse_id
                            = Inr (stocks, rest))
           \<and> (\<forall>stocks rest.
                 market_create_stocks date (before @ watch # after) offer_ids warehouse_id
                   = Inr (stocks, rest)
                 \<longrightarrow> \<lparr>sku = py_str (kod watch), warehouseId = warehouse_id,
                       sku_items = [\<lparr>item_count = n, item_type = ''FIT'', updatedAt = date\<rparr>]\<rparr>
                     \<in> set stocks)"
    if "market_create_stocks date before offer_ids warehouse_id = Inr (mstocks0, mrest0)
        \<and> count_list (codes before) (py_str (kod watch))
            < count_list offer_ids (py_str (kod watch))"
    using that market_create_stocks_reached
      [of date before offer_ids warehouse_id mstocks0 mrest0 watch after] by blast
  show "create_stocks (before @ watch # after) offer_ids
          = create_stocks (before @ after) offer_ids"
    if "count_list offer_ids (py_str (kod watch))
          \<le> count_list (codes before) (py_str (kod watch))"
    using that by (rule create_stocks_skip)
  show "market_create_stocks date (before @ watch # after) offer_ids warehouse_id
          = market_create_stocks date (before @ after) offer_ids warehouse_id"
    if "count_list offer_ids (py_str (kod watch))
          \<le> count_list (codes before) (py_str (kod watch))"
    using create_stocks_skip [OF that, of after] by (simp add: market_create_stocks_sim)
  show "create_stocks (before @ after) offer_ids = Inl e"
    if "create_stocks before offer_ids = Inl e"
    using that by (rule create_stocks_raises_early)
  show "market_create_stocks date (before @ after) offer_ids warehouse_id = Inl e"
    if "market_create_stocks date before offer_ids warehouse_id = Inl e"
    using that create_stocks_raises_early [of before offer_ids e after]
    by (simp add: market_create_stocks_Inl)
  show "quantity_rule (CStr ''>10'') = Inr 100" by (rule quantity_rule_sentinels)
  show "quantity_rule (CStr ''1'') = Inr 0" by (rule quantity_rule_sentinels)
  show "quantity_rule (CStr ''42'') = Inr 42" by (rule quantity_rule_42)
  show "quantity_rule (CStr s) = Inr v \<longleftrightarrow> int_literal (to_ascii s) v"
    if "s \<noteq> ''>10'' \<and> s \<noteq> ''1''"
    using that quantity_rule_CStr(1) [of s v] by blast
  show "e = ValueError" if "s \<noteq> ''>10'' \<and> s \<noteq> ''1'' \<and> quantity_rule (CStr s) = Inl e"
    using that quantity_rule_CStr(2) [of s e] by blast
  show "to_ascii s = s" if "list_all (\<lambda>c. of_char c < (128::nat)) s"
    using that by (rule to_ascii_ascii)
  show "quantity_rule (CStr arabic_42) = Inr 42" by (rule quantity_rule_arabic_42)
  show "quantity_rule (CStr '' -1_000 '') = Inr (- 1000)" by (rule quantity_rule_signed)
  show "quantity_rule (CStr (CHR 0x1F # ''7'')) = Inl ValueError"
    by (rule quantity_rule_separator)
  show "quantity_rule (CStr ''12abc'') = Inl ValueError" by (rule quantity_rule_12abc)
  show "quantity_rule (CStr ''1.5'') = Inl ValueError" by (rule quantity_rule_point)
  show "quantity_rule (CInt i) = Inr (if i = 1 then 0 else i)" by (rule quantity_rule_CInt)
  show "quantity_rule (CFloat x repr) = Inr (if x < 0 then \<lceil>x\<rceil> else \<lfloor>x\<rfloor>)"
    if "repr \<noteq> ''>10'' \<and> repr \<noteq> ''1''"
    using that by (simp add: quantity_rule_CFloat)
  show "quantity_rule CNaN = Inl ValueError" by (rule quantity_rule_NaN_None)
  show "quantity_rule CNone = Inl TypeError" by (rule quantity_rule_NaN_None)
qed

theorem reconciler_updates_witness:
  "create_stocks feed_123 [''123'', ''456'']
     = Inr ([\<lparr>offer_id = ''123'', stock = 5\<rparr>, \<lparr>offer_id = ''456'', stock = 0\<rparr>], [''456''])
   \<and> mset (map offer_id [\<lparr>offer_id = ''123'', stock = 5\<rparr>, \<lparr>offer_id = ''456'', stock = 0\<rparr>])
       = mset [''123'', ''456'']
   \<and> distinct [''123'', ''456'']
   \<and> ''456'' \<in> set [''123'', ''456''] \<and> ''456'' \<notin> set (codes feed_123)
   \<and> \<lparr>offer_id = ''456'', stock = 0\<rparr>
       \<in> set [\<lparr>offer_id = ''123'', stock = 5\<rparr>, \<lparr>offer_id = ''456'', stock = 0\<rparr>]
   \<and> create_prices feed_123 [''123'', ''456'']
       = Inr [\<lparr>auto_action_enabled = ''UNKNOWN'', currency_code = ''RUB'',
               price_offer_id = ''123'', old_price = ''0'', price = ''5990''\<rparr>]
   \<and> map price_offer_id
         [\<lparr>auto_action_enabled = ''UNKNOWN'', currency_code = ''RUB'',
           price_offer_id = ''123'', old_price = ''0'', price = ''5990''\<rparr>]
       = filter (\<lambda>c. c \<in> set [''123'', ''456'']) (codes feed_123)"
proof -
  have p: "create_prices feed_123 [''123'', ''456'']
       = Inr [\<lparr>auto_action_enabled = ''UNKNOWN'', currency_code = ''RUB'',
               price_offer_id = ''123'', old_price = ''0'', price = ''5990''\<rparr>]"
    by (simp add: feed_123_def create_prices_def str_nat.simps digit_char_def
          re_sub_non_digits_def is_digit_def)
  have c: "''456'' \<notin> set (codes feed_123)"
    by (simp add: feed_123_def codes_def str_nat.simps digit_char_def)
  show ?thesis
    using reconciler_updates [of feed_123 "[''123'', ''456'']"
        "[\<lparr>offer_id = ''123'', stock = 5\<rparr>, \<lparr>offer_id = ''456'', stock = 0\<rparr>]" "[''456'']"
        "[\<lparr>auto_action_enabled = ''UNKNOWN'', currency_code = ''RUB'',
           price_offer_id = ''123'', old_price = ''0'', price = ''5990''\<rparr>]"] p c
    by simp
qed

theorem quantity_normalisation_witness:
  "create_stocks [watch_a5] [''a'', ''b'']
     = Inr ([\<lparr>offer_id = ''a'', stock = 5\<rparr>, \<lparr>offer_id = ''b'', stock = 0\<rparr>], [''b''])
   \<and> market_create_stocks ''t'' [watch_a5] [''a'', ''b''] ''w''
     = Inr ([\<lparr>sku = ''a'', warehouseId = ''w'',
              sku_items = [\<lparr>item_count = 5, item_type = ''FIT'', updatedAt = ''t''\<rparr>]\<rparr>,
             \<lparr>sku = ''b'', warehouseId = ''w'',
              sku_items = [\<lparr>item_count = 0, item_type = ''FIT'', updatedAt = ''t''\<rparr>]\<rparr>],
            [''b''])
   \<and> create_stocks [watch_b_bad] [''a''] = create_stocks [] [''a'']
   \<and> quantity_rule (kolichestvo watch_b_bad) = Inl ValueError
   \<and> create_stocks ([watch_a5] @ [watch_b_bad]) [''a'', ''b''] = Inl ValueError
   \<and> market_create_stocks ''t'' ([watch_a5] @ [watch_b_bad]) [''a'', ''b''] ''w'' = Inl ValueError
   \<and> create_stocks ([watch_a5] @ [watch_a_bad]) [''a'', ''b'']
       = create_stocks ([watch_a5] @ []) [''a'', ''b'']
   \<and> market_create_stocks ''t'' ([watch_a5] @ [watch_a_bad]) [''a'', ''b''] ''w''
       = market_create_stocks ''t'' ([watch_a5] @ []) [''a'', ''b''] ''w''
   \<and> create_stocks ([watch_a_bad] @ [watch_a5]) [''a''] = Inl ValueError
   \<and> market_create_stocks ''t'' ([watch_a_bad] @ [watch_a5]) [''a''] ''w'' = Inl ValueError
   \<and> quantity_rule (CStr ''7'') = Inr 7
   \<and> int_literal (to_ascii ''7'') 7
   \<and> quantity_rule (CStr ''many'') = Inl ValueError
   \<and> to_ascii ''7'' = ''7''
   \<and> quantity_rule (CFloat 2.5 ''2.5'') = Inr 2"
proof -
  have q5: "quantity_rule (kolichestvo watch_a5) = Inr 5" by code_simp
  have qb: "quantity_rule (kolichestvo watch_b_bad) = Inl ValueError" by code_simp
  have ka: "py_str (kod watch_a5) \<in> set [''a'', ''b'']" by (simp add: watch_a5_def)
  have kb: "py_str (kod watch_b_bad) \<notin> set [''a'']" by (simp add: watch_b_bad_def)
  have cb: "count_list (codes [watch_a5]) (py_str (kod watch_b_bad))
      < count_list [''a'', ''b''] (py_str (kod watch_b_bad))"
    by (simp add: codes_def watch_a5_def watch_b_bad_def)
  have ca: "count_list [''a'', ''b''] (py_str (kod watch_a_bad))
      \<le> count_list (codes [watch_a5]) (py_str (kod watch_a_bad))"
    by (simp add: codes_def watch_a5_def watch_a_bad_def)
  have ea: "create_stocks [watch_a_bad] [''a''] = Inl ValueError" by code_simp
  have ma: "market_create_stocks ''t'' [watch_a_bad] [''a''] ''w'' = Inl ValueError" by code_simp
  have r1: "create_stocks [] [''b'']
      = Inr ([\<lparr>offer_id = ''b'', stock = 0\<rparr>], [''b''])"
    by (simp add: create_stocks_def)
  have r2: "market_create_stocks ''t'' [] [''b''] ''w''
      = Inr ([\<lparr>sku = ''b'', warehouseId = ''w'',
              sku_items = [\<lparr>item_count = 0, item_type = ''FIT'', updatedAt = ''t''\<rparr>]\<rparr>],
            [''b''])"
    by (simp add: market_create_stocks_def)
  have ka': "py_str (kod watch_a5) = ''a''" by (simp add: watch_a5_def)
  note t1 = quantity_normalisation [where offer_ids = "[''a'', ''b'']" and watch = watch_a5
      and after = "[]" and date = "''t''" and warehouse_id = "''w''"]
  have w1: "create_stocks [watch_a5] [''a'', ''b'']
     = Inr ([\<lparr>offer_id = ''a'', stock = 5\<rparr>, \<lparr>offer_id = ''b'', stock = 0\<rparr>], [''b''])"
    using t1 [THEN conjunct2, THEN conjunct1, THEN mp, OF ka] by (simp add: q5 r1 ka')
  have w2: "market_create_stocks ''t'' [watch_a5] [''a'', ''b''] ''w''
     = Inr ([\<lparr>sku = ''a'', warehouseId = ''w'',
              sku_items = [\<lparr>item_count = 5, item_type = ''FIT'', updatedAt = ''t''\<rparr>]\<rparr>,
             \<lparr>sku = ''b'', warehouseId = ''w'',
              sku_items = [\<lparr>item_count = 0, item_type = ''FIT'', updatedAt = ''t''\<rparr>]\<rparr>],
            [''b''])"
    using t1 [THEN conjunct2, THEN conjunct2, THEN conjunct2, THEN conjunct2, THEN conjunct1,
        THEN mp, OF ka] by (simp add: q5 r2 ka')
  note t2 = quantity_normalisation [where offer_ids = "[''a'']" and watch = watch_b_bad
      and after = "[]"]
  have w3: "create_stocks [watch_b_bad] [''a''] = create_stocks [] [''a'']"
    using t2 [THEN conjunct2, THEN conjunct2, THEN conjunct1, THEN mp, OF kb] .
  note t3 = quantity_normalisation [where offer_ids = "[''a'', ''b'']" and watch = watch_b_bad
      and before = "[watch_a5]" and after = "[]" and date = "''t''" and warehouse_id = "''w''"
      and ?stocks0.0 = "[\<lparr>offer_id = ''a'', stock = 5\<rparr>, \<lparr>offer_id = ''b'', stock = 0\<rparr>]"
      and ?rest0.0 = "[''b'']"
      and ?mstocks0.0 = "[\<lparr>sku = ''a'', warehouseId = ''w'',
              sku_items = [\<lparr>item_count = 5, item_type = ''FIT'', updatedAt = ''t''\<rparr>]\<rparr>,
             \<lparr>sku = ''b'', warehouseId = ''w'',
              sku_items = [\<lparr>item_count = 0, item_type = ''FIT'', updatedAt = ''t''\<rparr>]\<rparr>]"
      and ?mrest0.0 = "[''b'']"]
  have w4: "create_stocks ([watch_a5] @ [watch_b_bad]) [''a'', ''b''] = Inl ValueError"
    using t3 [THEN conjunct2, THEN conjunct2, THEN conjunct2, THEN conjunct2, THEN conjunct2,
        THEN conjunct2, THEN conjunct1, THEN mp,
        OF conjI [OF w1 cb]] by (simp only: qb sum.case)
  have w5: "market_create_stocks ''t'' ([watch_a5] @ [watch_b_bad]) [''a'', ''b''] ''w''
      = Inl ValueError"
    using t3 [THEN conjunct2, THEN conjunct2, THEN conjunct2, THEN conjunct2, THEN conjunct2,
        THEN conjunct2, THEN conjunct2, THEN conjunct1, THEN mp,
        OF conjI [OF w2 cb]] by (simp only: qb sum.case)
  note t4 = quantity_normalisation [where offer_ids = "[''a'', ''b'']" and watch = watch_a_bad
      and before = "[watch_a5]" and after = "[]" and date = "''t''" and warehouse_id = "''w''"]
  note s4 = t4 [THEN conjunct2, THEN conjunct2, THEN conjunct2, THEN conjunct2, THEN conjunct2,
      THEN conjunct2, THEN conjunct2, THEN conjunct2, THEN conjunct1, THEN mp, OF ca]
  have w6: "create_stocks ([watch_a5] @ [watch_a_bad]) [''a'', ''b'']
       = create_stocks ([watch_a5] @ []) [''a'', ''b'']"
    using s4 [THEN conjunct1] .
  have w7: "market_create_stocks ''t'' ([watch_a5] @ [watch_a_bad]) [''a'', ''b''] ''w''
       = market_create_stocks ''t'' ([watch_a5] @ []) [''a'', ''b''] ''w''"
    using s4 [THEN conjunct2] .
  note t5 = quantity_normalisation [where offer_ids = "[''a'']" and before = "[watch_a_bad]"
      and after = "[watch_a5]" and date = "''t''" and warehouse_id = "''w''"
      and e = ValueError]
  have w8: "create_stocks ([watch_a_bad] @ [watch_a5]) [''a''] = Inl ValueError"
    using t5 [THEN conjunct2, THEN conjunct2, THEN conjunct2, THEN conjunct2, THEN conjunct2,
        THEN conjunct2, THEN conjunct2, THEN conjunct2, THEN conjunct2, THEN conjunct1, THEN mp,
        OF ea] .
  have w9: "market_create_stocks ''t'' ([watch_a_bad] @ [watch_a5]) [''a''] ''w''
      = Inl ValueError"
    using t5 [THEN conjunct2, THEN conjunct2, THEN conjunct2, THEN conjunct2, THEN conjunct2,
        THEN conjunct2, THEN conjunct2, THEN conjunct2, THEN conjunct2, THEN conjunct2,
        THEN conjunct1, THEN mp, OF ma] .
  have q7: "quantity_rule (CStr ''7'') = Inr 7" by code_simp
  have n7: "''7'' \<noteq> ''>10'' \<and> ''7'' \<noteq> ''1''" by simp
  have a7: "list_all (\<lambda>c. of_char c < (128::nat)) ''7''" by simp
  note t6 = quantity_normalisation [where s = "''7''" and v = 7]
  have w10: "int_literal (to_ascii ''7'') 7"
    using t6 [THEN conjunct2, THEN conjunct2, THEN conjunct2, THEN conjunct2, THEN conjunct2,
        THEN conjunct2, THEN conjunct2, THEN conjunct2, THEN conjunct2, THEN conjunct2,
        THEN conjunct2, THEN conjunct2, THEN conjunct2, THEN conjunct2, THEN conjunct1, THEN mp,
        OF n7] q7 by (rule iffD1)
  have w11: "to_ascii ''7'' = ''7''"
    using t6 [THEN conjunct2, THEN conjunct2, THEN conjunct2, THEN conjunct2, THEN conjunct2,
        THEN conjunct2, THEN conjunct2, THEN conjunct2, THEN conjunct2, THEN conjunct2,
        THEN conjunct2, THEN conjunct2, THEN conjunct2, THEN conjunct2, THEN conjunct2,
        THEN conjunct2, THEN conjunct1, THEN mp, OF a7] .
  have qm: "quantity_rule (CStr ''many'') = Inl ValueError" by code_simp
  have nh: "''2.5'' \<noteq> ''>10'' \<and> ''2.5'' \<noteq> ''1''" by simp
  note t7 = quantity_normalisation [where repr = "''2.5''" and x = "2.5"]
  have w12: "quantity_rule (CFloat 2.5 ''2.5'') = Inr 2"
    using t7 [THEN conjunct2, THEN conjunct2, THEN conjunct2, THEN conjunct2, THEN conjunct2,
        THEN conjunct2, THEN conjunct2, THEN conjunct2, THEN conjunct2, THEN conjunct2,
        THEN conjunct2, THEN conjunct2, THEN conjunct2, THEN conjunct2, THEN conjunct2,
        THEN conjunct2, THEN conjunct2, THEN conjunct2, THEN conjunct2, THEN conjunct2,
        THEN conjunct2, THEN conjunct2, THEN conjunct2, THEN conjunct1, THEN mp, OF nh] by simp
  show ?thesis
    by (intro conjI) (rule w1 w2 w3 qb w4 w5 w6 w7 w8 w9 q7 w10 qm w11 w12)+
qed

section \<open>Running create_stocks twice\<close>

lemma with_date_to_market: "with_date d2 (to_market wh d1 x) = to_market wh d2 x"
  by (simp add: with_date_def to_market_def)

lemma create_stocks_perm:
  assumes "mset ids1 = mset ids2"
  shows "map_sum id (map_prod mset mset) (create_stocks feed ids1)
       = map_sum id (map_prod mset mset) (create_stocks feed ids2)"
proof -
  note p = stocks_loop_perm [OF assms, of feed "[]"]
  show ?thesis
  proof (cases "stocks_loop feed ids1 []")
    case (Inl e)
    then have "stocks_loop feed ids2 [] = Inl e" using p by (cases "stocks_loop feed ids2 []") auto
    then show ?thesis using Inl by (simp add: create_stocks_def)
  next
    case (Inr a)
    obtain matched r1 where a: "a = (matched, r1)" by (cases a)
    from p Inr a obtain r2 where
      l2: "stocks_loop feed ids2 [] = Inr (matched, r2)" and m: "mset r1 = mset r2"
      by (cases "stocks_loop feed ids2 []") auto
    have "mset (map (\<lambda>x. \<lparr>offer_id = x, stock = 0\<rparr>) r1) = mset (map (\<lambda>x. \<lparr>offer_id = x, stock = 0\<rparr>) r2)"
      using m by (metis mset_map)
    then show ?thesis using Inr a l2 m by (simp add: create_stocks_def)
  qed
qed

lemma market_redate:
  "map_sum id (map_prod (map (with_date d2)) id) (market_create_stocks d1 feed ids wh)
     = market_create_stocks d2 feed ids wh"
  by (cases "create_stocks feed ids")
     (auto simp: market_create_stocks_sim with_date_to_market)

lemma market_perm:
  assumes "mset ids1 = mset ids2"
  shows "map_sum id (map_prod (\<lambda>stocks. mset (map (with_date d2) stocks)) mset)
           (market_create_stocks d1 feed ids1 wh)
       = map_sum id (map_prod mset mset) (market_create_stocks d2 feed ids2 wh)"
proof -
  note p = create_stocks_perm [OF assms, of feed]
  show ?thesis
  proof (cases "create_stocks feed ids1")
    case (Inl e)
    then have "create_stocks feed ids2 = Inl e" using p by (cases "create_stocks feed ids2") auto
    then show ?thesis using Inl by (simp add: market_create_stocks_sim)
  next
    case (Inr a)
    obtain s1 r1 where a: "a = (s1, r1)" by (cases a)
    from p Inr a obtain s2 r2 where
      c2: "create_stocks feed ids2 = Inr (s2, r2)" and m: "mset s1 = mset s2" "mset r1 = mset r2"
      by (cases "create_stocks feed ids2") auto
    have e1: "map (with_date d2) (map (to_market wh d1) s1) = map (to_market wh d2) s1"
      by (simp add: with_date_to_market)
    have e2: "mset (map (to_market wh d2) s1) = mset (map (to_market wh d2) s2)"
      using m(1) by (metis mset_map)
    have "mset (map (with_date d2) (map (to_market wh d1) s1))
        = mset (map (to_market wh d2) s2)" unfolding e1 by (rule e2)
    then show ?thesis using Inr a c2 m(2)
      by (simp add: market_create_stocks_sim del: mset_map map_map)
  qed
qed

text \<open>
  Claim C8 as stated fails in market.py: every update carries the reading of the clock
  that \<open>create_stocks\<close> takes when it starts, so two runs on the same feed and catalog
  that start in different seconds return different updates.
\<close>

theorem market_create_stocks_clock:
  "market_create_stocks ''2023-01-01T00:00:00Z'' [] [''123''] ''1''
     \<noteq> market_create_stocks ''2023-01-01T00:00:01Z'' [] [''123''] ''1''"
  by (simp add: market_create_stocks_def)

text \<open>
  Claim C8, amended. On the same feed records and equal copies of the catalog list,
  \<open>create_stocks\<close> of seller.py returns the same result in both runs, and the results of
  \<open>create_stocks\<close> of market.py differ in nothing but the time stamp: putting the clock
  reading of the second run into the updates of the first gives the updates of the second.
  When the two copies of the catalog hold the same identifiers in a different order, the
  results are the same up to order (equal as multisets), with the same proviso for the
  time stamp, and the same exception is raised if one is.
\<close>

theorem create_stocks_rerun:
  "(offer_ids1 = offer_ids2 \<longrightarrow>
      create_stocks watch_remnants offer_ids1 = create_stocks watch_remnants offer_ids2
      \<and> map_sum id (map_prod (map (with_date date2)) id)
            (market_create_stocks date1 watch_remnants offer_ids1 warehouse_id)
          = market_create_stocks date2 watch_remnants offer_ids2 warehouse_id)
   \<and> (mset offer_ids1 = mset offer_ids2 \<longrightarrow>
      map_sum id (map_prod mset mset) (create_stocks watch_remnants offer_ids1)
        = map_sum id (map_prod mset mset) (create_stocks watch_remnants offer_ids2)
      \<and> map_sum id (map_prod (\<lambda>stocks. mset (map (with_date date2) stocks)) mset)
            (market_create_stocks date1 watch_remnants offer_ids1 warehouse_id)
          = map_sum id (map_prod mset mset)
              (market_create_stocks date2 watch_remnants offer_ids2 warehouse_id))"
  using create_stocks_perm [of offer_ids1 offer_ids2 watch_remnants]
    market_perm [of offer_ids1 offer_ids2 date2 date1 watch_remnants warehouse_id]
    market_redate [of date2 date1 watch_remnants offer_ids1 warehouse_id]
  by blast

theorem create_stocks_rerun_witness:
  "mset [''123'', ''456''] = mset [''456'', ''123'']
   \<and> create_stocks feed_123 [''123'', ''456''] = create_stocks feed_123 [''123'', ''456'']
   \<and> map_sum id (map_prod (map (with_date ''t2'')) id)
         (market_create_stocks ''t1'' feed_123 [''123'', ''456''] ''w'')
       = market_create_stocks ''t2'' feed_123 [''123'', ''456''] ''w''
   \<and> map_sum id (map_prod mset mset) (create_stocks feed_123 [''123'', ''456''])
       = map_sum id (map_prod mset mset) (create_stocks feed_123 [''456'', ''123''])
   \<and> map_sum id (map_prod (\<lambda>stocks. mset (map (with_date ''t2'') stocks)) mset)
         (market_create_stocks ''t1'' feed_123 [''123'', ''456''] ''w'')
       = map_sum id (map_prod mset mset)
           (market_create_stocks ''t2'' feed_123 [''456'', ''123''] ''w'')"
proof -
  have p: "mset [''123'', ''456''] = mset [''456'', ''123'']" by (simp add: add_mset_commute)
  show ?thesis
    using p
      create_stocks_rerun [of "[''123'', ''456'']" "[''123'', ''456'']" feed_123 "''t2''" "''t1''" "''w''"]
      create_stocks_rerun [of "[''123'', ''456'']" "[''456'', ''123'']" feed_123 "''t2''" "''t1''" "''w''"]
    by blast
qed

section \<open>What a run sends\<close>

lemma get_product_list_state:
  "get_product_list sv lid c t s = (r, s') \<Longrightarrow> requests s' = requests s \<and> stdout s' = stdout s"
  by (auto simp: get_product_list_def split: prod.splits)

lemma product_list_loop_state:
  assumes "product_list_loop sv c t lid acc s = Some y"
  shows "requests (snd y) = requests s \<and> stdout (snd y) = stdout s"
proof (rule product_list_loop.raw_induct
    [where P = "\<lambda>sv c t lid acc s y. requests (snd y) = requests s \<and> stdout (snd y) = stdout s",
     OF _ assms], goal_cases)
  case (1 loop sv c t lid acc s y)
  obtain r s1 where g: "get_product_list sv lid c t s = (r, s1)"
    by (cases "get_product_list sv lid c t s")
  note st = get_product_list_state [OF g]
  show ?case
  proof (cases r)
    case (Inl e)
    with 1(2) g st show ?thesis by auto
  next
    case (Inr pg)
    show ?thesis
    proof (cases "page_total pg = int (length (acc @ page_items pg))")
      case True
      with 1(2) g st Inr show ?thesis by (auto simp: Let_def)
    next
      case False
      with 1(2) g Inr have "loop sv c t (page_last_id pg) (acc @ page_items pg) s1 = Some y"
        by (auto simp: Let_def)
      from 1(1) [OF this] st show ?thesis by simp
    qed
  qed
qed

lemma then_do_Some:
  "then_do m f s = Some (r, s') \<longleftrightarrow>
     (\<exists>e. m s = Some (Inl e, s') \<and> r = Inl e)
     \<or> (\<exists>x s1. m s = Some (Inr x, s1) \<and> f x s1 = Some (r, s'))"
  by (auto simp: then_do_def split: option.splits sum.splits prod.splits)

lemma then_doE:
  assumes "then_do m f s = Some (r, s')"
  obtains (raised) e where "m s = Some (Inl e, s')" "r = Inl e"
        | (went_on) x s1 where "m s = Some (Inr x, s1)" "f x s1 = Some (r, s')"
  using assms unfolding then_do_Some by blast

lemma result_Some: "result v s = Some (r, s') \<longleftrightarrow> r = v \<and> s' = s"
  by (auto simp: result_def)

lemma get_offer_ids_state:
  assumes "get_offer_ids sv c t s = Some (r, s')"
  shows "requests s' = requests s \<and> stdout s' = stdout s"
proof -
  from assms obtain y where "product_list_loop sv c t [] [] s = Some y" and "snd y = s'"
    by (auto simp: get_offer_ids_def then_do_Some result_Some)
  then show ?thesis using product_list_loop_state by blast
qed

lemma download_stock_state:
  "download_stock sv s = Some (r, s') \<Longrightarrow> requests s' = requests s \<and> stdout s' = stdout s"
  by (auto simp: download_stock_def split: prod.splits)

lemma update_stocks_state:
  "update_stocks sv b c t s = Some (r, s') \<Longrightarrow>
   requests s' = requests s @ [Update_stocks b] \<and> stdout s' = stdout s"
  by (auto simp: update_stocks_def split: prod.splits)

lemma update_price_state:
  "update_price sv b c t s = Some (r, s') \<Longrightarrow>
   requests s' = requests s @ [Update_price b] \<and> stdout s' = stdout s"
  by (auto simp: update_price_def split: prod.splits)

lemma for_each_trace:
  assumes step: "\<And>x s r s'. f x s = Some (r, s') \<Longrightarrow>
                   requests s' = requests s @ [g x] \<and> stdout s' = stdout s"
    and run: "for_each f xs s = Some (r, s')"
  shows "stdout s' = stdout s
       \<and> (\<exists>k \<le> length xs. requests s' = requests s @ map g (take k xs)
              \<and> (r = Inr () \<longrightarrow> k = length xs))"
  using run
proof (induction xs arbitrary: s)
  case Nil
  then show ?case by simp
next
  case (Cons x xs)
  from Cons.prems obtain r1 s1 where f: "f x s = Some (r1, s1)"
    by (cases "f x s") auto
  note st = step [OF f]
  show ?case
  proof (cases r1)
    case (Inl e)
    with Cons.prems f have "r = Inl e" "s' = s1" by simp_all
    then have "requests s' = requests s @ map g (take 1 (x # xs))" "r \<noteq> Inr ()"
      using st by simp_all
    then show ?thesis using st \<open>s' = s1\<close> by (intro conjI exI [of _ 1]) simp_all
  next
    case (Inr u)
    with Cons.prems f have "for_each f xs s1 = Some (r, s')" by simp
    from Cons.IH [OF this] obtain k where
      k: "k \<le> length xs" "requests s' = requests s1 @ map g (take k xs)"
         "r = Inr () \<longrightarrow> k = length xs" and o: "stdout s' = stdout s1"
      by blast
    have "requests s' = requests s @ map g (take (Suc k) (x # xs))" using k(2) st by simp
    then show ?thesis using k(1,3) o st by (intro conjI exI [of _ "Suc k"]) simp_all
  qed
qed

lemma for_each_update_stocks:
  assumes "for_each (\<lambda>some_stock. update_stocks sv some_stock c t) xs s = Some (r, s')"
  shows "stdout s' = stdout s
       \<and> (\<exists>k \<le> length xs. requests s' = requests s @ map Update_stocks (take k xs)
              \<and> (r = Inr () \<longrightarrow> k = length xs))"
proof (rule for_each_trace [where f = "\<lambda>some_stock. update_stocks sv some_stock c t"])
  show "requests s2 = requests s1 @ [Update_stocks x] \<and> stdout s2 = stdout s1"
    if "update_stocks sv x c t s1 = Some (r1, s2)" for x s1 r1 s2
    using that by (rule update_stocks_state)
  show "for_each (\<lambda>some_stock. update_stocks sv some_stock c t) xs s = Some (r, s')"
    by (rule assms)
qed

lemma for_each_update_price:
  assumes "for_each (\<lambda>some_price. update_price sv some_price c t) xs s = Some (r, s')"
  shows "stdout s' = stdout s
       \<and> (\<exists>k \<le> length xs. requests s' = requests s @ map Update_price (take k xs)
              \<and> (r = Inr () \<longrightarrow> k = length xs))"
proof (rule for_each_trace [where f = "\<lambda>some_price. update_price sv some_price c t"])
  show "requests s2 = requests s1 @ [Update_price x] \<and> stdout s2 = stdout s1"
    if "update_price sv x c t s1 = Some (r1, s2)" for x s1 r1 s2
    using that by (rule update_price_state)
  show "for_each (\<lambda>some_price. update_price sv some_price c t) xs s = Some (r, s')"
    by (rule assms)
qed

lemma chunk_length_le:
  assumes "0 < m" "c \<in> set (chunks_of m xs)"
  shows "length c \<le> m"
proof -
  from assms(2) obtain k where "k < length (chunks_of m xs)" "c = chunks_of m xs ! k"
    by (auto simp: in_set_conv_nth)
  then show ?thesis using length_chunk_le(1) [OF assms(1)] by simp
qed

lemma main_try_trace:
  assumes "main_try sv c t s = Some (r, s')"
  shows "\<exists>stocks prices k j.
      stdout s' = stdout s
    \<and> requests s' = requests s @ map Update_stocks (take k (chunks_of 100 stocks))
                                @ map Update_price (take j (chunks_of 900 prices))
    \<and> (prices \<noteq> [] \<longrightarrow> k = length (chunks_of 100 stocks)
          \<and> (\<exists>ids s1 feed s2 rest.
                get_offer_ids sv c t s = Some (Inr ids, s1)
              \<and> download_stock sv s1 = Some (Inr feed, s2)
              \<and> create_stocks feed ids = Inr (stocks, rest)
              \<and> create_prices feed rest = Inr prices))"
proof -
  let ?goal = "\<lambda>stocks prices k j.
      stdout s' = stdout s
    \<and> requests s' = requests s @ map Update_stocks (take k (chunks_of 100 stocks))
                                @ map Update_price (take j (chunks_of 900 prices))
    \<and> (prices \<noteq> [] \<longrightarrow> k = length (chunks_of 100 stocks)
          \<and> (\<exists>ids s1 feed s2 rest.
                get_offer_ids sv c t s = Some (Inr ids, s1)
              \<and> download_stock sv s1 = Some (Inr feed, s2)
              \<and> create_stocks feed ids = Inr (stocks, rest)
              \<and> create_prices feed rest = Inr prices))"
  have early: "\<exists>stocks prices k j. ?goal stocks prices k j"
    if "requests s' = requests s" "stdout s' = stdout s"
    using that by (intro exI [of _ "[]"] exI [of _ 0]) simp
  from assms [unfolded main_try_def] show ?thesis
  proof (cases rule: then_doE)
    case (raised e)
    from get_offer_ids_state [OF raised(1)] show ?thesis by (intro early) simp_all
  next
    case fetched: (went_on ids s1)
    note g = get_offer_ids_state [OF fetched(1)]
    from fetched(2) show ?thesis
    proof (cases rule: then_doE)
      case (raised e)
      from download_stock_state [OF raised(1)] g show ?thesis by (intro early) simp_all
    next
      case downloaded: (went_on feed s2)
      note d = download_stock_state [OF downloaded(1)]
      from downloaded(2) show ?thesis
      proof (cases rule: then_doE)
        case (raised e)
        then have "s' = s2" by (simp add: result_Some)
        then show ?thesis using d g by (intro early) simp_all
      next
        case made: (went_on x s2')
        obtain stocks rest where x: "x = (stocks, rest)" by (cases x)
        from made(1) x have cs: "create_stocks feed ids = Inr (stocks, rest)" and "s2' = s2"
          by (simp_all add: result_Some)
        from made(2) [unfolded x \<open>s2' = s2\<close> prod.case] show ?thesis
        proof (cases rule: then_doE)
          case (raised e)
          then have "s' = s2" by (simp add: result_Some)
          then show ?thesis using d g by (intro early) simp_all
        next
          case divided: (went_on batches s2'')
          have "divide_lst stocks 100 = Inr (chunks_of 100 stocks)"
            using divide_chunks [of 100 stocks] by simp
          with divided(1) have b: "batches = chunks_of 100 stocks" and "s2'' = s2"
            by (simp_all add: result_Some)
          from divided(2) [unfolded b \<open>s2'' = s2\<close>] show ?thesis
          proof (cases rule: then_doE)
            case (raised e)
            from for_each_update_stocks [OF raised(1)]
            obtain k where "stdout s' = stdout s2"
              "requests s' = requests s2 @ map Update_stocks (take k (chunks_of 100 stocks))"
              by blast
            then have "?goal stocks [] k 0" using d g by simp
            then show ?thesis by blast
          next
            case uploaded: (went_on u s3)
            from for_each_update_stocks [OF uploaded(1)]
            have u: "stdout s3 = stdout s2"
              "requests s3 = requests s2 @ map Update_stocks (chunks_of 100 stocks)"
              by auto
            from uploaded(2) show ?thesis
            proof (cases rule: then_doE)
              case (raised e)
              then have "s' = s3" by (simp add: result_Some)
              then have "?goal stocks [] (length (chunks_of 100 stocks)) 0" using u d g by simp
              then show ?thesis by blast
            next
              case priced: (went_on prices s3')
              then have cp: "create_prices feed rest = Inr prices" and "s3' = s3"
                by (simp_all add: result_Some)
              from priced(2) [unfolded \<open>s3' = s3\<close>] show ?thesis
              proof (cases rule: then_doE)
                case (raised e)
                then have "s' = s3" by (simp add: result_Some)
                then have "?goal stocks [] (length (chunks_of 100 stocks)) 0" using u d g by simp
                then show ?thesis by blast
              next
                case divided': (went_on batches' s3'')
                have "divide_lst prices 900 = Inr (chunks_of 900 prices)"
                  using divide_chunks [of 900 prices] by simp
                with divided'(1) have b': "batches' = chunks_of 900 prices" and "s3'' = s3"
                  by (simp_all add: result_Some)
                from for_each_update_price [OF divided'(2) [unfolded b' \<open>s3'' = s3\<close>]]
                obtain j where "stdout s' = stdout s3"
                  "requests s' = requests s3 @ map Update_price (take j (chunks_of 900 prices))"
                  by blast
                then have "?goal stocks prices (length (chunks_of 100 stocks)) j"
                  using u d g fetched(1) downloaded(1) cs cp by auto
                then show ?thesis by blast
              qed
            qed
          qed
        qed
      qed
    qed
  qed
qed

lemma except_clauses_requests:
  "except_clauses e s = (out, s') \<Longrightarrow> requests s' = requests s"
  by (auto simp: except_clauses_def split: if_splits)

lemma try_except_requests:
  assumes "try_except body s = Some (out, s')"
  obtains r s1 where "body s = Some (r, s1)" "requests s' = requests s1"
  using assms except_clauses_requests
  by (fastforce simp: try_except_def split: option.splits sum.splits prod.splits)

lemma main_cases:
  assumes "main sv s = Some (out, s')"
  obtains (no_env) "s' = s"
    | (ran) t c where "env_str sv ''SELLER_TOKEN'' = Inr t" "env_str sv ''CLIENT_ID'' = Inr c"
        "try_except (main_try sv c t) s = Some (out, s')"
  using assms by (auto simp: main_def split: sum.splits)

lemma main_trace:
  assumes "main sv s = Some (out, s')"
  shows "\<exists>stocks prices k j.
      requests s' = requests s @ map Update_stocks (take k (chunks_of 100 stocks))
                                @ map Update_price (take j (chunks_of 900 prices))
    \<and> (prices \<noteq> [] \<longrightarrow> k = length (chunks_of 100 stocks)
          \<and> (\<exists>t c ids s1 feed s2 rest.
                env_str sv ''SELLER_TOKEN'' = Inr t \<and> env_str sv ''CLIENT_ID'' = Inr c
              \<and> get_offer_ids sv c t s = Some (Inr ids, s1)
              \<and> download_stock sv s1 = Some (Inr feed, s2)
              \<and> create_stocks feed ids = Inr (stocks, rest)
              \<and> create_prices feed rest = Inr prices))"
  using assms
proof (cases rule: main_cases)
  case no_env
  then show ?thesis by (intro exI [of _ "[]"] exI [of _ 0]) simp
next
  case (ran t c)
  from ran(3) obtain r s1 where b: "main_try sv c t s = Some (r, s1)"
    and q: "requests s' = requests s1" by (rule try_except_requests)
  from main_try_trace [OF b] obtain stocks prices k j where
    "requests s1 = requests s @ map Update_stocks (take k (chunks_of 100 stocks))
                                @ map Update_price (take j (chunks_of 900 prices))"
    "prices \<noteq> [] \<longrightarrow> k = length (chunks_of 100 stocks)
          \<and> (\<exists>ids s1 feed s2 rest.
                get_offer_ids sv c t s = Some (Inr ids, s1)
              \<and> download_stock sv s1 = Some (Inr feed, s2)
              \<and> create_stocks feed ids = Inr (stocks, rest)
              \<and> create_prices feed rest = Inr prices)"
    by blast
  then show ?thesis using q ran(1,2) by (intro exI [of _ stocks] exI [of _ prices] exI [of _ k] exI [of _ j]) auto
qed

lemma upload_stocks_trace:
  assumes "upload_stocks sv feed c t s = Some (r, s')"
  shows "\<exists>stocks k. requests s' = requests s @ map Update_stocks (take k (chunks_of 100 stocks))"
proof -
  have early: ?thesis if "requests s' = requests s"
    using that by (intro exI [of _ "[]"] exI [of _ 0]) simp
  from assms [unfolded upload_stocks_def] show ?thesis
  proof (cases rule: then_doE)
    case (raised e)
    from get_offer_ids_state [OF raised(1)] show ?thesis by (intro early) simp
  next
    case fetched: (went_on ids s1)
    note g = get_offer_ids_state [OF fetched(1)]
    from fetched(2) show ?thesis
    proof (cases rule: then_doE)
      case (raised e)
      then have "s' = s1" by (simp add: result_Some)
      then show ?thesis using g by (intro early) simp
    next
      case made: (went_on x s1')
      obtain stocks rest where x: "x = (stocks, rest)" by (cases x)
      from made(1) have "s1' = s1" by (simp add: result_Some)
      from made(2) [unfolded x \<open>s1' = s1\<close> prod.case] show ?thesis
      proof (cases rule: then_doE)
        case (raised e)
        then have "s' = s1" by (simp add: result_Some)
        then show ?thesis using g by (intro early) simp
      next
        case divided: (went_on batches s1'')
        have "divide_lst stocks 100 = Inr (chunks_of 100 stocks)"
          using divide_chunks [of 100 stocks] by simp
        with divided(1) have b: "batches = chunks_of 100 stocks" and "s1'' = s1"
          by (simp_all add: result_Some)
        from divided(2) [unfolded b \<open>s1'' = s1\<close>] show ?thesis
        proof (cases rule: then_doE)
          case (raised e)
          from for_each_update_stocks [OF raised(1)] g show ?thesis by auto
        next
          case uploaded: (went_on u s2)
          from uploaded(2) have "s' = s2" by (simp add: result_Some)
          from for_each_update_stocks [OF uploaded(1)] obtain k where
            "requests s2 = requests s1 @ map Update_stocks (take k (chunks_of 100 stocks))"
            by blast
          then have "requests s' = requests s @ map Update_stocks (take k (chunks_of 100 stocks))"
            using g \<open>s' = s2\<close> by simp
          then show ?thesis by blast
        qed
      qed
    qed
  qed
qed

lemma upload_prices_trace:
  assumes "upload_prices sv feed c t s = Some (r, s')"
  shows "\<exists>prices j. requests s' = requests s @ map Update_price (take j (chunks_of 1000 prices))"
proof -
  have early: ?thesis if "requests s' = requests s"
    using that by (intro exI [of _ "[]"] exI [of _ 0]) simp
  from assms [unfolded upload_prices_def] show ?thesis
  proof (cases rule: then_doE)
    case (raised e)
    from get_offer_ids_state [OF raised(1)] show ?thesis by (intro early) simp
  next
    case fetched: (went_on ids s1)
    note g = get_offer_ids_state [OF fetched(1)]
    from fetched(2) show ?thesis
    proof (cases rule: then_doE)
      case (raised e)
      then have "s' = s1" by (simp add: result_Some)
      then show ?thesis using g by (intro early) simp
    next
      case made: (went_on prices s1')
      from made(1) have "s1' = s1" by (simp add: result_Some)
      from made(2) [unfolded \<open>s1' = s1\<close>] show ?thesis
      proof (cases rule: then_doE)
        case (raised e)
        then have "s' = s1" by (simp add: result_Some)
        then show ?thesis using g by (intro early) simp
      next
        case divided: (went_on batches s1'')
        have "divide_lst prices 1000 = Inr (chunks_of 1000 prices)"
          using divide_chunks [of 1000 prices] by simp
        with divided(1) have b: "batches = chunks_of 1000 prices" and "s1'' = s1"
          by (simp_all add: result_Some)
        from divided(2) [unfolded b \<open>s1'' = s1\<close>] show ?thesis
        proof (cases rule: then_doE)
          case (raised e)
          from for_each_update_price [OF raised(1)] g show ?thesis by auto
        next
          case uploaded: (went_on u s2)
          from uploaded(2) have "s' = s2" by (simp add: result_Some)
          from for_each_update_price [OF uploaded(1)] obtain j where
            "requests s2 = requests s1 @ map Update_price (take j (chunks_of 1000 prices))"
            by blast
          then have "requests s' = requests s @ map Update_price (take j (chunks_of 1000 prices))"
            using g \<open>s' = s2\<close> by simp
          then show ?thesis by blast
        qed
      qed
    qed
  qed
qed

lemma take_chunk_length_le:
  assumes "0 < m" "b \<in> set (take k (chunks_of m xs))"
  shows "length b \<le> m"
  using assms chunk_length_le [of m b xs] by (auto dest: in_set_takeD)

text \<open>
  Claim C6. Whatever the marketplace and the feed source answer, the batches that
  \<open>main\<close> of seller.py sends are first chunks of size 100 of one list of stock updates and
  then chunks of size 900 of one list of price updates, so no stock batch is longer
  than 100 and no price batch longer than 900; \<open>upload_stocks\<close> sends chunks of size 100
  and nothing else, \<open>upload_prices\<close> chunks of size 1000 and nothing else.
\<close>

theorem batch_size_bounds:
  "(main sv s = Some (out, s1) \<longrightarrow>
      (\<exists>stocks prices k j.
          requests s1 = requests s @ map Update_stocks (take k (chunks_of 100 stocks))
                                   @ map Update_price (take j (chunks_of 900 prices))
        \<and> (\<forall>b \<in> set (take k (chunks_of 100 stocks)). length b \<le> 100)
        \<and> (\<forall>b \<in> set (take j (chunks_of 900 prices)). length b \<le> 900)))
   \<and> (upload_stocks sv watch_remnants client_id seller_token s = Some (r2, s2) \<longrightarrow>
      (\<exists>stocks k.
          requests s2 = requests s @ map Update_stocks (take k (chunks_of 100 stocks))
        \<and> (\<forall>b \<in> set (take k (chunks_of 100 stocks)). length b \<le> 100)))
   \<and> (upload_prices sv watch_remnants client_id seller_token s = Some (r3, s3) \<longrightarrow>
      (\<exists>prices j.
          requests s3 = requests s @ map Update_price (take j (chunks_of 1000 prices))
        \<and> (\<forall>b \<in> set (take j (chunks_of 1000 prices)). length b \<le> 1000)))"
proof (intro conjI impI)
  assume "main sv s = Some (out, s1)"
  from main_trace [OF this] obtain stocks prices k j where
    "requests s1 = requests s @ map Update_stocks (take k (chunks_of 100 stocks))
                                   @ map Update_price (take j (chunks_of 900 prices))"
    by blast
  moreover have "\<forall>b \<in> set (take k (chunks_of 100 stocks)). length b \<le> 100"
    using take_chunk_length_le [of 100 _ k stocks] by simp
  moreover have "\<forall>b \<in> set (take j (chunks_of 900 prices)). length b \<le> 900"
    using take_chunk_length_le [of 900 _ j prices] by simp
  ultimately show "\<exists>stocks prices k j.
          requests s1 = requests s @ map Update_stocks (take k (chunks_of 100 stocks))
                                   @ map Update_price (take j (chunks_of 900 prices))
        \<and> (\<forall>b \<in> set (take k (chunks_of 100 stocks)). length b \<le> 100)
        \<and> (\<forall>b \<in> set (take j (chunks_of 900 prices)). length b \<le> 900)"
    by blast
next
  assume "upload_stocks sv watch_remnants client_id seller_token s = Some (r2, s2)"
  from upload_stocks_trace [OF this] obtain stocks k where
    "requests s2 = requests s @ map Update_stocks (take k (chunks_of 100 stocks))" by blast
  moreover have "\<forall>b \<in> set (take k (chunks_of 100 stocks)). length b \<le> 100"
    using take_chunk_length_le [of 100 _ k stocks] by simp
  ultimately show "\<exists>stocks k.
          requests s2 = requests s @ map Update_stocks (take k (chunks_of 100 stocks))
        \<and> (\<forall>b \<in> set (take k (chunks_of 100 stocks)). length b \<le> 100)"
    by blast
next
  assume "upload_prices sv watch_remnants client_id seller_token s = Some (r3, s3)"
  from upload_prices_trace [OF this] obtain prices j where
    "requests s3 = requests s @ map Update_price (take j (chunks_of 1000 prices))" by blast
  moreover have "\<forall>b \<in> set (take j (chunks_of 1000 prices)). length b \<le> 1000"
    using take_chunk_length_le [of 1000 _ j prices] by simp
  ultimately show "\<exists>prices j.
          requests s3 = requests s @ map Update_price (take j (chunks_of 1000 prices))
        \<and> (\<forall>b \<in> set (take j (chunks_of 1000 prices)). length b \<le> 1000)"
    by blast
qed
theorem batch_size_bounds_witness:
  "main shop start = Some (Returned, sent_stocks)
   \<and> (\<exists>stocks prices k j.
          requests sent_stocks
            = requests start @ map Update_stocks (take k (chunks_of 100 stocks))
                             @ map Update_price (take j (chunks_of 900 prices)))
   \<and> upload_stocks shop feed_123 ''c'' ''t'' start = Some
        (Inr ([\<lparr>offer_id = ''123'', stock = 5\<rparr>],
              [\<lparr>offer_id = ''123'', stock = 5\<rparr>, \<lparr>offer_id = ''456'', stock = 0\<rparr>]),
         sent_stocks)
   \<and> (\<exists>stocks k.
          requests sent_stocks = requests start @ map Update_stocks (take k (chunks_of 100 stocks)))
   \<and> upload_prices shop feed_123 ''c'' ''t'' start = Some
        (Inr [\<lparr>auto_action_enabled = ''UNKNOWN'', currency_code = ''RUB'',
                price_offer_id = ''123'', old_price = ''0'', price = ''5990''\<rparr>],
         sent_prices)
   \<and> (\<exists>prices j.
          requests sent_prices = requests start @ map Update_price (take j (chunks_of 1000 prices)))"
proof -
  have m: "main shop start = Some (Returned, sent_stocks)" by code_simp
  have us: "upload_stocks shop feed_123 ''c'' ''t'' start = Some
        (Inr ([\<lparr>offer_id = ''123'', stock = 5\<rparr>],
              [\<lparr>offer_id = ''123'', stock = 5\<rparr>, \<lparr>offer_id = ''456'', stock = 0\<rparr>]),
         sent_stocks)" by code_simp
  have up: "upload_prices shop feed_123 ''c'' ''t'' start = Some
        (Inr [\<lparr>auto_action_enabled = ''UNKNOWN'', currency_code = ''RUB'',
                price_offer_id = ''123'', old_price = ''0'', price = ''5990''\<rparr>],
         sent_prices)" by code_simp
  show ?thesis
    using m us up
      batch_size_bounds [of shop start Returned sent_stocks feed_123 "''c''" "''t''"
        "Inr ([\<lparr>offer_id = ''123'', stock = 5\<rparr>],
              [\<lparr>offer_id = ''123'', stock = 5\<rparr>, \<lparr>offer_id = ''456'', stock = 0\<rparr>])"
        sent_stocks
        "Inr [\<lparr>auto_action_enabled = ''UNKNOWN'', currency_code = ''RUB'',
                price_offer_id = ''123'', old_price = ''0'', price = ''5990''\<rparr>]"
        sent_prices]
    by blast
qed

section \<open>The catalog list after create_stocks\<close>

lemma residual_prices_zero:
  assumes "create_stocks feed ids = Inr (stocks, rest)" "create_prices feed rest = Inr prices"
    "p \<in> set prices"
  shows "\<lparr>offer_id = price_offer_id p, stock = 0\<rparr> \<in> set stocks"
proof -
  have "price_offer_id p \<in> set (map price_offer_id prices)" using assms(3) by simp
  then have "price_offer_id p \<in> set rest"
    unfolding create_prices_ids [OF assms(2)] by simp
  then show ?thesis using assms(1) by (rule create_stocks_zero_fill [rotated])
qed

lemma distinct_no_prices:
  assumes "create_stocks feed ids = Inr (stocks, rest)" "distinct ids"
  shows "create_prices feed rest = Inr []"
proof -
  have "rest = filter (\<lambda>x. x \<notin> set (codes feed)) ids"
    using assms by (rule create_stocks_distinct_residual)
  then have "set rest \<inter> set (codes feed) = {}" by auto
  then show ?thesis unfolding create_prices_def by (rule prices_loop_no_match)
qed

lemma set_chunks_of: "0 < m \<Longrightarrow> \<Union> (set ` set (chunks_of m xs)) = set xs"
  using concat_chunks_of [of m xs] by (metis set_concat)

lemma main_price_has_zero_stock:
  assumes "main sv s = Some (out, s1)"
  shows "\<exists>new. requests s1 = requests s @ new
     \<and> (\<forall>ps p. Update_price ps \<in> set new \<and> p \<in> set ps \<longrightarrow>
           (\<exists>ss. Update_stocks ss \<in> set new
                \<and> \<lparr>offer_id = price_offer_id p, stock = 0\<rparr> \<in> set ss))"
proof -
  from main_trace [OF assms] obtain stocks prices k j where
    q: "requests s1 = requests s @ map Update_stocks (take k (chunks_of 100 stocks))
                                @ map Update_price (take j (chunks_of 900 prices))" and
    f: "prices \<noteq> [] \<longrightarrow> k = length (chunks_of 100 stocks)
          \<and> (\<exists>t c ids s1 feed s2 rest.
                env_str sv ''SELLER_TOKEN'' = Inr t \<and> env_str sv ''CLIENT_ID'' = Inr c
              \<and> get_offer_ids sv c t s = Some (Inr ids, s1)
              \<and> download_stock sv s1 = Some (Inr feed, s2)
              \<and> create_stocks feed ids = Inr (stocks, rest)
              \<and> create_prices feed rest = Inr prices)"
    by blast
  let ?new = "map Update_stocks (take k (chunks_of 100 stocks))
                @ map Update_price (take j (chunks_of 900 prices))"
  have "\<exists>ss. Update_stocks ss \<in> set ?new \<and> \<lparr>offer_id = price_offer_id p, stock = 0\<rparr> \<in> set ss"
    if "Update_price ps \<in> set ?new" "p \<in> set ps" for ps p
  proof -
    from that(1) have "ps \<in> set (take j (chunks_of 900 prices))" by auto
    then have "ps \<in> set (chunks_of 900 prices)" by (rule in_set_takeD)
    then have "p \<in> set prices" using that(2) set_chunks_of [of 900 prices] by auto
    then have ne: "prices \<noteq> []" by auto
    with f obtain feed ids rest where k: "k = length (chunks_of 100 stocks)"
      and cs: "create_stocks feed ids = Inr (stocks, rest)"
      and cp: "create_prices feed rest = Inr prices" by blast
    have "\<lparr>offer_id = price_offer_id p, stock = 0\<rparr> \<in> set stocks"
      using cs cp \<open>p \<in> set prices\<close> by (rule residual_prices_zero)
    then obtain ss where "ss \<in> set (chunks_of 100 stocks)"
      "\<lparr>offer_id = price_offer_id p, stock = 0\<rparr> \<in> set ss"
      using set_chunks_of [of 100 stocks] by auto
    then show ?thesis using k by auto
  qed
  then show ?thesis using q by blast
qed

lemma main_distinct_no_price:
  assumes "env_str sv ''SELLER_TOKEN'' = Inr t" "env_str sv ''CLIENT_ID'' = Inr c"
    "get_offer_ids sv c t s = Some (Inr ids, s0)" "distinct ids"
    "main sv s = Some (out, s1)"
  shows "\<exists>stocks k. requests s1 = requests s @ map Update_stocks (take k (chunks_of 100 stocks))"
proof -
  from main_trace [OF assms(5)] obtain stocks prices k j where
    q: "requests s1 = requests s @ map Update_stocks (take k (chunks_of 100 stocks))
                                @ map Update_price (take j (chunks_of 900 prices))" and
    f: "prices \<noteq> [] \<longrightarrow> k = length (chunks_of 100 stocks)
          \<and> (\<exists>t c ids s1 feed s2 rest.
                env_str sv ''SELLER_TOKEN'' = Inr t \<and> env_str sv ''CLIENT_ID'' = Inr c
              \<and> get_offer_ids sv c t s = Some (Inr ids, s1)
              \<and> download_stock sv s1 = Some (Inr feed, s2)
              \<and> create_stocks feed ids = Inr (stocks, rest)
              \<and> create_prices feed rest = Inr prices)"
    by blast
  have "prices = []"
  proof (rule ccontr)
    assume "prices \<noteq> []"
    with f obtain t' c' ids' s1' feed rest where
      e: "env_str sv ''SELLER_TOKEN'' = Inr t'" "env_str sv ''CLIENT_ID'' = Inr c'" and
      g: "get_offer_ids sv c' t' s = Some (Inr ids', s1')" and
      cs: "create_stocks feed ids' = Inr (stocks, rest)" and
      cp: "create_prices feed rest = Inr prices" by blast
    from e assms(1,2) have "t' = t" "c' = c" by simp_all
    with g assms(3) have "ids' = ids" by simp
    with cs assms(4) have "create_prices feed rest = Inr []" using distinct_no_prices by blast
    with cp \<open>prices \<noteq> []\<close> show False by simp
  qed
  then have "chunks_of 900 prices = []" by (subst chunks_of.simps) simp
  then show ?thesis using q by auto
qed

text \<open>
  Claim C9 as stated fails when the catalog holds an identifier twice: one matching feed
  record removes one occurrence only, so the matched identifier stays in the caller's
  list, and \<open>create_prices\<close> on that list returns a price update for an identifier that
  received the nonzero stock 5.
\<close>

theorem duplicate_catalog_keeps_matched:
  "create_stocks [watch_a5_priced] [''a'', ''a'']
     = Inr ([\<lparr>offer_id = ''a'', stock = 5\<rparr>, \<lparr>offer_id = ''a'', stock = 0\<rparr>], [''a''])
   \<and> create_prices [watch_a5_priced] [''a'']
     = Inr [\<lparr>auto_action_enabled = ''UNKNOWN'', currency_code = ''RUB'',
             price_offer_id = ''a'', old_price = ''0'', price = ''10''\<rparr>]"
  by code_simp

text \<open>
  Claim C9, amended. \<open>create_stocks\<close> changes the caller's list \<open>offer_ids\<close> in place.
  When the catalog identifiers are pairwise distinct, the list afterwards holds exactly
  the catalog identifiers that no feed record matched, in their order, and
  \<open>create_prices\<close> on that list returns no price update at all; so \<open>main\<close> of seller.py,
  which passes that list on, then sends stock batches only, and no price update for an
  identifier with a nonzero stock. With or without duplicates, every price update that
  \<open>create_prices\<close> returns on the changed list, and every one that \<open>main\<close> sends, is for an
  identifier that received an update with stock 0 in the same run.
\<close>

theorem create_stocks_consumes_catalog:
  "(create_stocks watch_remnants offer_ids = Inr (stocks, rest) \<and> distinct offer_ids \<longrightarrow>
      rest = filter (\<lambda>x. x \<notin> set (codes watch_remnants)) offer_ids
      \<and> create_prices watch_remnants rest = Inr [])
   \<and> (create_stocks watch_remnants offer_ids = Inr (stocks, rest)
        \<and> create_prices watch_remnants rest = Inr prices \<longrightarrow>
      (\<forall>p \<in> set prices. \<lparr>offer_id = price_offer_id p, stock = 0\<rparr> \<in> set stocks))
   \<and> (main sv s = Some (out, s1) \<longrightarrow>
      (\<exists>new. requests s1 = requests s @ new
         \<and> (\<forall>ps p. Update_price ps \<in> set new \<and> p \<in> set ps \<longrightarrow>
               (\<exists>ss. Update_stocks ss \<in> set new
                    \<and> \<lparr>offer_id = price_offer_id p, stock = 0\<rparr> \<in> set ss))))
   \<and> (env_str sv ''SELLER_TOKEN'' = Inr seller_token \<and> env_str sv ''CLIENT_ID'' = Inr client_id
        \<and> get_offer_ids sv client_id seller_token s = Some (Inr catalog, s0) \<and> distinct catalog
        \<and> main sv s = Some (out, s1) \<longrightarrow>
      (\<exists>sent k. requests s1 = requests s @ map Update_stocks (take k (chunks_of 100 sent))))"
proof (intro conjI impI)
  assume a: "create_stocks watch_remnants offer_ids = Inr (stocks, rest) \<and> distinct offer_ids"
  then show "rest = filter (\<lambda>x. x \<notin> set (codes watch_remnants)) offer_ids"
    using create_stocks_distinct_residual by blast
  from a show "create_prices watch_remnants rest = Inr []"
    using distinct_no_prices by blast
next
  assume "create_stocks watch_remnants offer_ids = Inr (stocks, rest)
        \<and> create_prices watch_remnants rest = Inr prices"
  then show "\<forall>p \<in> set prices. \<lparr>offer_id = price_offer_id p, stock = 0\<rparr> \<in> set stocks"
    using residual_prices_zero by blast
next
  assume "main sv s = Some (out, s1)"
  then show "\<exists>new. requests s1 = requests s @ new
         \<and> (\<forall>ps p. Update_price ps \<in> set new \<and> p \<in> set ps \<longrightarrow>
               (\<exists>ss. Update_stocks ss \<in> set new
                    \<and> \<lparr>offer_id = price_offer_id p, stock = 0\<rparr> \<in> set ss))"
    by (rule main_price_has_zero_stock)
next
  assume "env_str sv ''SELLER_TOKEN'' = Inr seller_token \<and> env_str sv ''CLIENT_ID'' = Inr client_id
        \<and> get_offer_ids sv client_id seller_token s = Some (Inr catalog, s0) \<and> distinct catalog
        \<and> main sv s = Some (out, s1)"
  then show "\<exists>sent k. requests s1 = requests s @ map Update_stocks (take k (chunks_of 100 sent))"
    using main_distinct_no_price by blast
qed

theorem create_stocks_consumes_catalog_witness:
  "create_stocks feed_123 [''123'', ''456'']
     = Inr ([\<lparr>offer_id = ''123'', stock = 5\<rparr>, \<lparr>offer_id = ''456'', stock = 0\<rparr>], [''456''])
   \<and> distinct [''123'', ''456'']
   \<and> [''456''] = filter (\<lambda>x. x \<notin> set (codes feed_123)) [''123'', ''456'']
   \<and> create_prices feed_123 [''456''] = Inr []
   \<and> create_stocks [watch_a5_priced] [''a'', ''a'']
     = Inr ([\<lparr>offer_id = ''a'', stock = 5\<rparr>, \<lparr>offer_id = ''a'', stock = 0\<rparr>], [''a''])
   \<and> create_prices [watch_a5_priced] [''a'']
     = Inr [\<lparr>auto_action_enabled = ''UNKNOWN'', currency_code = ''RUB'',
             price_offer_id = ''a'', old_price = ''0'', price = ''10''\<rparr>]
   \<and> \<lparr>offer_id = ''a'', stock = 0\<rparr>
         \<in> set [\<lparr>offer_id = ''a'', stock = 5\<rparr>, \<lparr>offer_id = ''a'', stock = 0\<rparr>]
   \<and> env_str shop ''SELLER_TOKEN'' = Inr ''secret'' \<and> env_str shop ''CLIENT_ID'' = Inr ''secret''
   \<and> get_offer_ids shop ''secret'' ''secret'' start
       = Some (Inr [''123'', ''456''], \<lparr>world = 1, requests = [], stdout = []\<rparr>)
   \<and> main shop start = Some (Returned, sent_stocks)
   \<and> (\<exists>sent k. requests sent_stocks
         = requests start @ map Update_stocks (take k (chunks_of 100 sent)))"
proof -
  have a: "create_stocks feed_123 [''123'', ''456'']
     = Inr ([\<lparr>offer_id = ''123'', stock = 5\<rparr>, \<lparr>offer_id = ''456'', stock = 0\<rparr>], [''456''])"
    by code_simp
  have b: "create_stocks [watch_a5_priced] [''a'', ''a'']
     = Inr ([\<lparr>offer_id = ''a'', stock = 5\<rparr>, \<lparr>offer_id = ''a'', stock = 0\<rparr>], [''a''])"
    by code_simp
  have c: "create_prices [watch_a5_priced] [''a'']
     = Inr [\<lparr>auto_action_enabled = ''UNKNOWN'', currency_code = ''RUB'',
             price_offer_id = ''a'', old_price = ''0'', price = ''10''\<rparr>]"
    by code_simp
  have d: "distinct [''123'', ''456'']" by simp
  have e: "env_str shop ''SELLER_TOKEN'' = Inr ''secret''" "env_str shop ''CLIENT_ID'' = Inr ''secret''"
    by code_simp+
  have g: "get_offer_ids shop ''secret'' ''secret'' start
       = Some (Inr [''123'', ''456''], \<lparr>world = 1, requests = [], stdout = []\<rparr>)"
    by code_simp
  have m: "main shop start = Some (Returned, sent_stocks)" by code_simp
  note t1 = create_stocks_consumes_catalog [of feed_123 "[''123'', ''456'']"
      "[\<lparr>offer_id = ''123'', stock = 5\<rparr>, \<lparr>offer_id = ''456'', stock = 0\<rparr>]" "[''456'']"
      "[]" shop start Returned sent_stocks "''secret''" "''secret''" "[''123'', ''456'']"
      "\<lparr>world = 1, requests = [], stdout = []\<rparr>"]
  note t2 = create_stocks_consumes_catalog [of "[watch_a5_priced]" "[''a'', ''a'']"
      "[\<lparr>offer_id = ''a'', stock = 5\<rparr>, \<lparr>offer_id = ''a'', stock = 0\<rparr>]" "[''a'']"
      "[\<lparr>auto_action_enabled = ''UNKNOWN'', currency_code = ''RUB'',
             price_offer_id = ''a'', old_price = ''0'', price = ''10''\<rparr>]"
      shop start Returned sent_stocks "''secret''" "''secret''" "[''123'', ''456'']"
      "\<lparr>world = 1, requests = [], stdout = []\<rparr>"]
  from t2 b c have "\<forall>p \<in> set [\<lparr>auto_action_enabled = ''UNKNOWN'', currency_code = ''RUB'',
                     price_offer_id = ''a'', old_price = ''0'', price = ''10''\<rparr>].
         \<lparr>offer_id = price_offer_id p, stock = 0\<rparr>
           \<in> set [\<lparr>offer_id = ''a'', stock = 5\<rparr>, \<lparr>offer_id = ''a'', stock = 0\<rparr>]"
    by blast
  then have z: "\<lparr>offer_id = ''a'', stock = 0\<rparr>
         \<in> set [\<lparr>offer_id = ''a'', stock = 5\<rparr>, \<lparr>offer_id = ''a'', stock = 0\<rparr>]"
    by simp
  show ?thesis using a b c d e g m t1 z by blast
qed

section \<open>The except clauses of main\<close>

lemma market_get_product_list_state:
  "market_get_product_list sv page c t s = (r, s') \<Longrightarrow>
   requests s' = requests s \<and> stdout s' = stdout s"
  by (auto simp: market_get_product_list_def split: prod.splits)

lemma market_product_list_loop_state:
  assumes "market_product_list_loop sv c t page acc s = Some y"
  shows "requests (snd y) = requests s \<and> stdout (snd y) = stdout s"
proof (rule market_product_list_loop.raw_induct
    [where P = "\<lambda>sv c t page acc s y. requests (snd y) = requests s \<and> stdout (snd y) = stdout s",
     OF _ assms], goal_cases)
  case (1 loop sv c t page acc s y)
  obtain r s1 where g: "market_get_product_list sv page c t s = (r, s1)"
    by (cases "market_get_product_list sv page c t s")
  note st = market_get_product_list_state [OF g]
  show ?case
  proof (cases r)
    case (Inl e)
    with 1(2) g st show ?thesis by auto
  next
    case (Inr pg)
    show ?thesis
    proof (cases "nextPageToken pg = None \<or> nextPageToken pg = Some []")
      case True
      with 1(2) g st Inr show ?thesis by (auto simp: Let_def)
    next
      case False
      then obtain page' where p: "nextPageToken pg = Some page'" "page' \<noteq> []" by auto
      with 1(2) g Inr have "loop sv c t page' (acc @ offerMappingEntries pg) s1 = Some y"
        by (auto simp: Let_def)
      from 1(1) [OF this] st show ?thesis by simp
    qed
  qed
qed

lemma market_get_offer_ids_state:
  assumes "market_get_offer_ids sv c t s = Some (r, s')"
  shows "requests s' = requests s \<and> stdout s' = stdout s"
proof -
  from assms obtain y where "market_product_list_loop sv c t [] [] s = Some y" and "snd y = s'"
    by (auto simp: market_get_offer_ids_def then_do_Some result_Some)
  then show ?thesis using market_product_list_loop_state by blast
qed

lemma market_create_stocks_now_state:
  "market_create_stocks_now sv feed ids wh s = Some (r, s') \<Longrightarrow> stdout s' = stdout s"
  by (auto simp: market_create_stocks_now_def split: prod.splits)

lemma market_update_stocks_state:
  "market_update_stocks sv b c t s = Some (r, s') \<Longrightarrow> stdout s' = stdout s"
  by (auto simp: market_update_stocks_def split: prod.splits)

lemma market_update_stocks_total: "\<exists>r s'. market_update_stocks sv b c t s = Some (r, s')"
  by (auto simp: market_update_stocks_def split: prod.splits)

lemma for_each_market_update_stocks:
  "for_each (\<lambda>some_stock. market_update_stocks sv some_stock c t) xs s = Some (r, s')
   \<Longrightarrow> stdout s' = stdout s"
proof (induction xs arbitrary: s)
  case Nil
  then show ?case by simp
next
  case (Cons x xs)
  obtain r1 s1 where f: "market_update_stocks sv x c t s = Some (r1, s1)"
    using market_update_stocks_total by blast
  note o = market_update_stocks_state [OF f]
  show ?case
  proof (cases r1)
    case (Inl e)
    with Cons.prems f o show ?thesis by simp
  next
    case (Inr u)
    with Cons.prems f have "for_each (\<lambda>some_stock. market_update_stocks sv some_stock c t) xs s1
        = Some (r, s')" by simp
    from Cons.IH [OF this] o show ?thesis by simp
  qed
qed

lemma market_campaign_stdout:
  assumes "market_campaign sv feed campaign wh t s = Some (r, s')"
  shows "stdout s' = stdout s"
  using assms [unfolded market_campaign_def]
proof (cases rule: then_doE)
  case (raised e)
  from market_get_offer_ids_state [OF raised(1)] show ?thesis by simp
next
  case fetched: (went_on ids s1)
  note g = market_get_offer_ids_state [OF fetched(1)]
  from fetched(2) show ?thesis
  proof (cases rule: then_doE)
    case (raised e)
    from market_create_stocks_now_state [OF raised(1)] g show ?thesis by simp
  next
    case made: (went_on x s2)
    note c = market_create_stocks_now_state [OF made(1)]
    obtain stocks rest where x: "x = (stocks, rest)" by (cases x)
    from made(2) [unfolded x prod.case] show ?thesis
    proof (cases rule: then_doE)
      case (raised e)
      then have "s' = s2" by (simp add: result_Some)
      then show ?thesis using c g by simp
    next
      case divided: (went_on batches s2')
      then have "s2' = s2" by (simp add: result_Some)
      with divided(2) for_each_market_update_stocks c g show ?thesis by metis
    qed
  qed
qed

lemma market_main_try_stdout:
  assumes "market_main_try sv feed t fbs dbs wfbs wdbs s = Some (r, s')"
  shows "stdout s' = stdout s"
  using assms [unfolded market_main_try_def]
proof (cases rule: then_doE)
  case (raised e)
  from market_campaign_stdout [OF raised(1)] show ?thesis .
next
  case (went_on u s1)
  from market_campaign_stdout [OF went_on(1)] market_campaign_stdout [OF went_on(2)]
  show ?thesis by simp
qed

lemma main_try_stdout:
  "main_try sv c t s = Some (r, s') \<Longrightarrow> stdout s' = stdout s"
  using main_try_trace by blast

lemma except_clauses_caught:
  "isinstance_Exception e \<Longrightarrow>
   except_clauses e s = (Returned, s\<lparr>stdout := stdout s @ [printed_for e]\<rparr>)"
  by (simp add: except_clauses_def printed_for_def)

lemma except_clauses_Raised:
  "except_clauses e s = (Raised e', s') \<Longrightarrow> \<not> isinstance_Exception e'"
  by (auto simp: except_clauses_def split: if_splits)

lemma env_str_Inl: "env_str sv name = Inl e \<Longrightarrow> e = EnvError"
  by (auto simp: env_str_def split: option.splits)

lemma env_str_None: "environ sv name = None \<Longrightarrow> env_str sv name = Inl EnvError"
  by (simp add: env_str_def)

lemma env_str_Some: "environ sv name = Some v \<Longrightarrow> env_str sv name = Inr v"
  by (simp add: env_str_def)

lemma env_str_cases:
  obtains (unset) "environ sv name = None" "env_str sv name = Inl EnvError"
  | (set) v where "environ sv name = Some v" "env_str sv name = Inr v"
  by (cases "environ sv name") (auto simp: env_str_def)

lemma except_clauses_not_caught:
  "\<not> isinstance_Exception e \<Longrightarrow> except_clauses e s = (Raised e, s)"
  by (auto simp: except_clauses_def isinstance_Exception_def isinstance_ConnectionError_def)

lemma main_unset:
  assumes "environ sv ''SELLER_TOKEN'' = None \<or> environ sv ''CLIENT_ID'' = None"
  shows "main sv s = Some (Raised EnvError, s)"
proof (cases rule: env_str_cases [of sv "''SELLER_TOKEN''"])
  case unset
  then show ?thesis by (simp add: main_def)
next
  case (set v)
  with assms have "env_str sv ''CLIENT_ID'' = Inl EnvError" by (simp add: env_str_None)
  then show ?thesis using set by (simp add: main_def)
qed

lemma main_set:
  assumes "environ sv ''SELLER_TOKEN'' = Some seller_token" "environ sv ''CLIENT_ID'' = Some client_id"
  shows "main sv s = try_except (main_try sv client_id seller_token) s"
  using assms by (simp add: main_def env_str_Some)

lemma market_main_unset:
  assumes "environ sv ''MARKET_TOKEN'' = None \<or> environ sv ''FBS_ID'' = None
    \<or> environ sv ''DBS_ID'' = None \<or> environ sv ''WAREHOUSE_FBS_ID'' = None
    \<or> environ sv ''WAREHOUSE_DBS_ID'' = None"
  shows "market_main sv s = Some (Raised EnvError, s)"
proof -
  have "env_str sv ''MARKET_TOKEN'' = Inl EnvError \<or> env_str sv ''FBS_ID'' = Inl EnvError
    \<or> env_str sv ''DBS_ID'' = Inl EnvError \<or> env_str sv ''WAREHOUSE_FBS_ID'' = Inl EnvError
    \<or> env_str sv ''WAREHOUSE_DBS_ID'' = Inl EnvError"
    using assms env_str_None [of sv] by blast
  moreover have "\<And>name e. env_str sv name = Inl e \<Longrightarrow> e = EnvError" by (rule env_str_Inl)
  ultimately show ?thesis
    unfolding market_main_def
    by (cases "env_str sv ''MARKET_TOKEN''"; cases "env_str sv ''FBS_ID''";
        cases "env_str sv ''DBS_ID''"; cases "env_str sv ''WAREHOUSE_FBS_ID''";
        cases "env_str sv ''WAREHOUSE_DBS_ID''") auto
qed

lemma market_main_set:
  assumes "environ sv ''MARKET_TOKEN'' = Some market_token"
    "environ sv ''FBS_ID'' = Some campaign_fbs_id"
    "environ sv ''DBS_ID'' = Some campaign_dbs_id"
    "environ sv ''WAREHOUSE_FBS_ID'' = Some warehouse_fbs_id"
    "environ sv ''WAREHOUSE_DBS_ID'' = Some warehouse_dbs_id"
  shows "market_main sv s =
     (case download_stock sv s of
        None \<Rightarrow> None
      | Some (Inl e, s') \<Rightarrow> Some (Raised e, s')
      | Some (Inr watch_remnants, s') \<Rightarrow>
          try_except
            (market_main_try sv watch_remnants market_token campaign_fbs_id campaign_dbs_id
               warehouse_fbs_id warehouse_dbs_id) s')"
  using assms by (simp add: market_main_def env_str_Some)

lemma try_except_caught:
  assumes "body s = Some (Inl e, s1)" "isinstance_Exception e"
  shows "try_except body s = Some (Returned, s1\<lparr>stdout := stdout s1 @ [printed_for e]\<rparr>)"
  using assms by (simp add: try_except_def except_clauses_caught)

lemma try_except_not_caught:
  assumes "body s = Some (Inl e, s1)" "\<not> isinstance_Exception e"
  shows "try_except body s = Some (Raised e, s1)"
  using assms by (simp add: try_except_def except_clauses_not_caught)

lemma try_except_returned:
  assumes "body s = Some (Inr (), s1)"
  shows "try_except body s = Some (Returned, s1)"
  using assms by (simp add: try_except_def)

lemma try_except_None: "body s = None \<Longrightarrow> try_except body s = None"
  by (simp add: try_except_def)

lemma try_except_Raised:
  assumes "try_except body s = Some (Raised e, s2)"
  shows "\<not> isinstance_Exception e"
proof -
  from assms obtain e0 s1 where "except_clauses e0 s1 = (Raised e, s2)"
    by (auto simp: try_except_def split: option.splits prod.splits sum.splits)
  then show ?thesis by (rule except_clauses_Raised)
qed

lemma main_Raised:
  assumes "main sv s = Some (Raised e, s2)"
  shows "environ sv ''SELLER_TOKEN'' = None \<or> environ sv ''CLIENT_ID'' = None
     \<or> \<not> isinstance_Exception e"
proof (cases rule: env_str_cases [of sv "''SELLER_TOKEN''"])
  case unset
  then show ?thesis by simp
next
  case t: (set seller_token)
  show ?thesis
  proof (cases rule: env_str_cases [of sv "''CLIENT_ID''"])
    case unset
    then show ?thesis by simp
  next
    case (set client_id)
    from assms have "try_except (main_try sv client_id seller_token) s = Some (Raised e, s2)"
      using main_set [OF t(1) set(1)] by simp
    then show ?thesis using try_except_Raised by blast
  qed
qed

lemma market_main_Raised:
  assumes "market_main sv s = Some (Raised e, s2)"
  shows "environ sv ''MARKET_TOKEN'' = None \<or> environ sv ''FBS_ID'' = None
    \<or> environ sv ''DBS_ID'' = None \<or> environ sv ''WAREHOUSE_FBS_ID'' = None
    \<or> environ sv ''WAREHOUSE_DBS_ID'' = None
    \<or> download_stock sv s = Some (Inl e, s2)
    \<or> \<not> isinstance_Exception e"
proof (cases "environ sv ''MARKET_TOKEN'' = None \<or> environ sv ''FBS_ID'' = None
    \<or> environ sv ''DBS_ID'' = None \<or> environ sv ''WAREHOUSE_FBS_ID'' = None
    \<or> environ sv ''WAREHOUSE_DBS_ID'' = None")
  case True
  then show ?thesis by blast
next
  case False
  then obtain a b c d f where v: "environ sv ''MARKET_TOKEN'' = Some a"
    "environ sv ''FBS_ID'' = Some b" "environ sv ''DBS_ID'' = Some c"
    "environ sv ''WAREHOUSE_FBS_ID'' = Some d" "environ sv ''WAREHOUSE_DBS_ID'' = Some f"
    by auto
  note m = market_main_set [OF v, of s]
  show ?thesis
  proof (cases "download_stock sv s")
    case None
    with m assms show ?thesis by simp
  next
    case (Some y)
    obtain r s' where y: "y = (r, s')" by (cases y)
    show ?thesis
    proof (cases r)
      case (Inl e0)
      with m assms Some y show ?thesis by simp
    next
      case (Inr feed)
      with m assms Some y have
        "try_except (market_main_try sv feed a b c d f) s' = Some (Raised e, s2)" by simp
      then show ?thesis using try_except_Raised by blast
    qed
  qed
qed

lemma printed_for_cases:
  "printed_for ReadTimeout = Timeout_line"
  "printed_for ConnectionError = Connection_line ConnectionError"
  "printed_for ConnectTimeout = Connection_line ConnectTimeout"
  "e \<noteq> ReadTimeout \<Longrightarrow> e \<noteq> ConnectionError \<Longrightarrow> e \<noteq> ConnectTimeout
     \<Longrightarrow> printed_for e = Error2_line e"
  by (simp_all add: printed_for_def isinstance_ConnectionError_def)

text \<open>
  Claim C5 as stated fails: both modules read their environment variables before the
  \<open>try\<close> statement, so the exception that \<open>env.str\<close> raises for a variable that is
  not set leaves \<open>main\<close> and nothing is printed.
\<close>

theorem missing_variable_leaves_main:
  "main shop_unset start = Some (Raised EnvError, start)"
  by code_simp

text \<open>
  Claim C5, amended, for \<open>main\<close> of seller.py and then for \<open>main\<close> of market.py.

  When one of the environment variables that the module reads is not set, the exception
  of the lookup leaves \<open>main\<close>, in the state in which \<open>main\<close> started. When all are set
  (and, in market.py, the feed is downloaded): every exception of class \<open>Exception\<close>
  that the body of the \<open>try\<close> statement raises is caught, and \<open>main\<close> returns in the
  state in which the exception was raised, so nothing is tried again, with one more line
  on standard output; an exception that is not of class \<open>Exception\<close> leaves \<open>main\<close> in
  that state; when the body raises nothing, \<open>main\<close> returns and has printed nothing; and
  when the body does not end, neither does \<open>main\<close>. Conversely, an exception leaves
  \<open>main\<close> only if a variable is not set or the exception is not of class \<open>Exception\<close>,
  or, in market.py, if it comes from the download of the feed, which that module calls
  before its \<open>try\<close> statement: the exception of a failing download leaves its \<open>main\<close>.

  \<open>KeyboardInterrupt\<close> is the exception that is not of class \<open>Exception\<close>. The line
  printed is the timeout message for \<open>ReadTimeout\<close>, the text with the connection label
  for \<open>ConnectionError\<close> and its subclass \<open>ConnectTimeout\<close>, and the text with
  \<open>ERROR_2\<close> for every other exception.
\<close>

theorem top_level_catch:
  "(environ sv ''SELLER_TOKEN'' = None \<or> environ sv ''CLIENT_ID'' = None \<longrightarrow>
      main sv s = Some (Raised EnvError, s))
   \<and> (environ sv ''SELLER_TOKEN'' = Some seller_token
        \<and> environ sv ''CLIENT_ID'' = Some client_id \<longrightarrow>
      (main_try sv client_id seller_token s = Some (Inl e, s1) \<and> isinstance_Exception e \<longrightarrow>
         main sv s = Some (Returned, s1\<lparr>stdout := stdout s @ [printed_for e]\<rparr>))
    \<and> (main_try sv client_id seller_token s = Some (Inl e, s1) \<and> \<not> isinstance_Exception e \<longrightarrow>
         main sv s = Some (Raised e, s1))
    \<and> (main_try sv client_id seller_token s = Some (Inr (), s1) \<longrightarrow>
         main sv s = Some (Returned, s1) \<and> stdout s1 = stdout s)
    \<and> (main_try sv client_id seller_token s = None \<longrightarrow> main sv s = None))
   \<and> (main sv s = Some (Raised e', s2) \<longrightarrow>
        environ sv ''SELLER_TOKEN'' = None \<or> environ sv ''CLIENT_ID'' = None
        \<or> \<not> isinstance_Exception e')
   \<and> (environ sv ''MARKET_TOKEN'' = None \<or> environ sv ''FBS_ID'' = None
        \<or> environ sv ''DBS_ID'' = None \<or> environ sv ''WAREHOUSE_FBS_ID'' = None
        \<or> environ sv ''WAREHOUSE_DBS_ID'' = None \<longrightarrow>
      market_main sv s = Some (Raised EnvError, s))
   \<and> (environ sv ''MARKET_TOKEN'' = Some market_token
        \<and> environ sv ''FBS_ID'' = Some campaign_fbs_id
        \<and> environ sv ''DBS_ID'' = Some campaign_dbs_id
        \<and> environ sv ''WAREHOUSE_FBS_ID'' = Some warehouse_fbs_id
        \<and> environ sv ''WAREHOUSE_DBS_ID'' = Some warehouse_dbs_id
        \<and> download_stock sv s = Some (Inr watch_remnants, s0) \<longrightarrow>
      (market_main_try sv watch_remnants market_token campaign_fbs_id campaign_dbs_id
           warehouse_fbs_id warehouse_dbs_id s0 = Some (Inl e, s1) \<and> isinstance_Exception e \<longrightarrow>
         market_main sv s = Some (Returned, s1\<lparr>stdout := stdout s @ [printed_for e]\<rparr>))
    \<and> (market_main_try sv watch_remnants market_token campaign_fbs_id campaign_dbs_id
           warehouse_fbs_id warehouse_dbs_id s0 = Some (Inl e, s1) \<and> \<not> isinstance_Exception e \<longrightarrow>
         market_main sv s = Some (Raised e, s1))
    \<and> (market_main_try sv watch_remnants market_token campaign_fbs_id campaign_dbs_id
           warehouse_fbs_id warehouse_dbs_id s0 = Some (Inr (), s1) \<longrightarrow>
         market_main sv s = Some (Returned, s1) \<and> stdout s1 = stdout s)
    \<and> (market_main_try sv watch_remnants market_token campaign_fbs_id campaign_dbs_id
           warehouse_fbs_id warehouse_dbs_id s0 = None \<longrightarrow> market_main sv s = None))
   \<and> (environ sv ''MARKET_TOKEN'' = Some market_token
        \<and> environ sv ''FBS_ID'' = Some campaign_fbs_id
        \<and> environ sv ''DBS_ID'' = Some campaign_dbs_id
        \<and> environ sv ''WAREHOUSE_FBS_ID'' = Some warehouse_fbs_id
        \<and> environ sv ''WAREHOUSE_DBS_ID'' = Some warehouse_dbs_id
        \<and> download_stock sv s = Some (Inl e, s0) \<longrightarrow>
      market_main sv s = Some (Raised e, s0))
   \<and> (market_main sv s = Some (Raised e', s2) \<longrightarrow>
        environ sv ''MARKET_TOKEN'' = None \<or> environ sv ''FBS_ID'' = None
        \<or> environ sv ''DBS_ID'' = None \<or> environ sv ''WAREHOUSE_FBS_ID'' = None
        \<or> environ sv ''WAREHOUSE_DBS_ID'' = None
        \<or> download_stock sv s = Some (Inl e', s2)
        \<or> \<not> isinstance_Exception e')
   \<and> \<not> isinstance_Exception KeyboardInterrupt
   \<and> (e \<noteq> KeyboardInterrupt \<longrightarrow> isinstance_Exception e)
   \<and> printed_for ReadTimeout = Timeout_line
   \<and> printed_for ConnectionError = Connection_line ConnectionError
   \<and> printed_for ConnectTimeout = Connection_line ConnectTimeout
   \<and> (e \<noteq> ReadTimeout \<and> e \<noteq> ConnectionError \<and> e \<noteq> ConnectTimeout \<longrightarrow>
        printed_for e = Error2_line e)"
proof (intro conjI impI)
  show "main sv s = Some (Raised EnvError, s)"
    if "environ sv ''SELLER_TOKEN'' = None \<or> environ sv ''CLIENT_ID'' = None"
    using that by (rule main_unset)
  show "market_main sv s = Some (Raised EnvError, s)"
    if "environ sv ''MARKET_TOKEN'' = None \<or> environ sv ''FBS_ID'' = None
        \<or> environ sv ''DBS_ID'' = None \<or> environ sv ''WAREHOUSE_FBS_ID'' = None
        \<or> environ sv ''WAREHOUSE_DBS_ID'' = None"
    using that by (rule market_main_unset)
  show "environ sv ''SELLER_TOKEN'' = None \<or> environ sv ''CLIENT_ID'' = None
        \<or> \<not> isinstance_Exception e'"
    if "main sv s = Some (Raised e', s2)"
    using that by (rule main_Raised)
  show "environ sv ''MARKET_TOKEN'' = None \<or> environ sv ''FBS_ID'' = None
        \<or> environ sv ''DBS_ID'' = None \<or> environ sv ''WAREHOUSE_FBS_ID'' = None
        \<or> environ sv ''WAREHOUSE_DBS_ID'' = None
        \<or> download_stock sv s = Some (Inl e', s2)
        \<or> \<not> isinstance_Exception e'"
    if "market_main sv s = Some (Raised e', s2)"
    using that by (rule market_main_Raised)
  show "\<not> isinstance_Exception KeyboardInterrupt" by (simp add: isinstance_Exception_def)
  show "isinstance_Exception e" if "e \<noteq> KeyboardInterrupt"
    using that by (simp add: isinstance_Exception_def)
  show "printed_for ReadTimeout = Timeout_line"
    "printed_for ConnectionError = Connection_line ConnectionError"
    "printed_for ConnectTimeout = Connection_line ConnectTimeout"
    by (rule printed_for_cases)+
  show "printed_for e = Error2_line e"
    if "e \<noteq> ReadTimeout \<and> e \<noteq> ConnectionError \<and> e \<noteq> ConnectTimeout"
    using that by (simp add: printed_for_cases)
next
  assume env: "environ sv ''SELLER_TOKEN'' = Some seller_token
        \<and> environ sv ''CLIENT_ID'' = Some client_id"
  then have m: "main sv s = try_except (main_try sv client_id seller_token) s"
    by (simp add: main_set)
  {
    assume a: "main_try sv client_id seller_token s = Some (Inl e, s1) \<and> isinstance_Exception e"
    then have "stdout s1 = stdout s" using main_try_stdout by blast
    then show "main sv s = Some (Returned, s1\<lparr>stdout := stdout s @ [printed_for e]\<rparr>)"
      using a by (simp add: m try_except_caught)
  }
  {
    assume "main_try sv client_id seller_token s = Some (Inl e, s1) \<and> \<not> isinstance_Exception e"
    then show "main sv s = Some (Raised e, s1)" by (simp add: m try_except_not_caught)
  }
  {
    assume a: "main_try sv client_id seller_token s = Some (Inr (), s1)"
    then show "main sv s = Some (Returned, s1)" by (simp add: m try_except_returned)
    from a show "stdout s1 = stdout s" by (rule main_try_stdout)
  }
  {
    assume "main_try sv client_id seller_token s = None"
    then show "main sv s = None" by (simp add: m try_except_None)
  }
next
  assume env: "environ sv ''MARKET_TOKEN'' = Some market_token
        \<and> environ sv ''FBS_ID'' = Some campaign_fbs_id
        \<and> environ sv ''DBS_ID'' = Some campaign_dbs_id
        \<and> environ sv ''WAREHOUSE_FBS_ID'' = Some warehouse_fbs_id
        \<and> environ sv ''WAREHOUSE_DBS_ID'' = Some warehouse_dbs_id
        \<and> download_stock sv s = Some (Inr watch_remnants, s0)"
  then have d: "stdout s0 = stdout s" using download_stock_state by blast
  from env have m: "market_main sv s =
      try_except (market_main_try sv watch_remnants market_token campaign_fbs_id campaign_dbs_id
        warehouse_fbs_id warehouse_dbs_id) s0"
    by (simp add: market_main_set)
  {
    assume a: "market_main_try sv watch_remnants market_token campaign_fbs_id campaign_dbs_id
           warehouse_fbs_id warehouse_dbs_id s0 = Some (Inl e, s1) \<and> isinstance_Exception e"
    then have "stdout s1 = stdout s" using market_main_try_stdout d by metis
    then show "market_main sv s = Some (Returned, s1\<lparr>stdout := stdout s @ [printed_for e]\<rparr>)"
      using a by (simp add: m try_except_caught)
  }
  {
    assume "market_main_try sv watch_remnants market_token campaign_fbs_id campaign_dbs_id
           warehouse_fbs_id warehouse_dbs_id s0 = Some (Inl e, s1) \<and> \<not> isinstance_Exception e"
    then show "market_main sv s = Some (Raised e, s1)" by (simp add: m try_except_not_caught)
  }
  {
    assume a: "market_main_try sv watch_remnants market_token campaign_fbs_id campaign_dbs_id
           warehouse_fbs_id warehouse_dbs_id s0 = Some (Inr (), s1)"
    then show "market_main sv s = Some (Returned, s1)" by (simp add: m try_except_returned)
    from a d show "stdout s1 = stdout s" using market_main_try_stdout by metis
  }
  {
    assume "market_main_try sv watch_remnants market_token campaign_fbs_id campaign_dbs_id
           warehouse_fbs_id warehouse_dbs_id s0 = None"
    then show "market_main sv s = None" by (simp add: m try_except_None)
  }
next
  assume "environ sv ''MARKET_TOKEN'' = Some market_token
        \<and> environ sv ''FBS_ID'' = Some campaign_fbs_id
        \<and> environ sv ''DBS_ID'' = Some campaign_dbs_id
        \<and> environ sv ''WAREHOUSE_FBS_ID'' = Some warehouse_fbs_id
        \<and> environ sv ''WAREHOUSE_DBS_ID'' = Some warehouse_dbs_id
        \<and> download_stock sv s = Some (Inl e, s0)"
  then show "market_main sv s = Some (Raised e, s0)" by (simp add: market_main_set)
qed

theorem top_level_catch_witness:
  "main shop_unset start = Some (Raised EnvError, start)
   \<and> market_main shop_unset start = Some (Raised EnvError, start)
   \<and> main_try shop_down ''secret'' ''secret'' start = Some (Inl HTTPError, listed_once)
   \<and> isinstance_Exception HTTPError
   \<and> main shop_down start = Some (Returned, http_error_printed)
   \<and> download_stock shop_down start = Some (Inr feed_123, start)
   \<and> market_main_try shop_down feed_123 ''secret'' ''secret'' ''secret'' ''secret'' ''secret'' start
       = Some (Inl ReadTimeout, listed_once)
   \<and> isinstance_Exception ReadTimeout
   \<and> market_main shop_down start = Some (Returned, timeout_printed)
   \<and> main_try shop_interrupted ''secret'' ''secret'' start
       = Some (Inl KeyboardInterrupt, listed_once)
   \<and> main shop_interrupted start = Some (Raised KeyboardInterrupt, listed_once)
   \<and> market_main_try shop_interrupted feed_123 ''secret'' ''secret'' ''secret'' ''secret''
         ''secret'' start
       = Some (Inl KeyboardInterrupt, listed_once)
   \<and> market_main shop_interrupted start = Some (Raised KeyboardInterrupt, listed_once)
   \<and> main_try shop ''secret'' ''secret'' start = Some (Inr (), sent_stocks)
   \<and> main shop start = Some (Returned, sent_stocks)
   \<and> market_main_try shop feed_123 ''secret'' ''secret'' ''secret'' ''secret'' ''secret'' start
       = Some (Inr (), market_sent_stocks)
   \<and> market_main shop start = Some (Returned, market_sent_stocks)
   \<and> download_stock shop_no_feed start = Some (Inl ConnectionError, start)
   \<and> market_main shop_no_feed start = Some (Raised ConnectionError, start)
   \<and> main_try shop_no_feed ''secret'' ''secret'' start = Some (Inl ConnectionError, listed_once)
   \<and> main shop_no_feed start = Some (Returned, connection_printed)"
proof -
  have u: "environ shop_unset ''SELLER_TOKEN'' = None \<or> environ shop_unset ''CLIENT_ID'' = None"
    "environ shop_unset ''MARKET_TOKEN'' = None \<or> environ shop_unset ''FBS_ID'' = None
        \<or> environ shop_unset ''DBS_ID'' = None \<or> environ shop_unset ''WAREHOUSE_FBS_ID'' = None
        \<or> environ shop_unset ''WAREHOUSE_DBS_ID'' = None"
    by (simp_all add: shop_unset_def)
  have ev: "environ shop name = Some ''secret''" "environ shop_down name = Some ''secret''"
    "environ shop_interrupted name = Some ''secret''"
    "environ shop_no_feed name = Some ''secret''" for name
    by (simp_all add: shop_def shop_down_def shop_interrupted_def shop_no_feed_def)
  have i: "isinstance_Exception HTTPError" "isinstance_Exception ReadTimeout"
    "isinstance_Exception ConnectionError" "\<not> isinstance_Exception KeyboardInterrupt"
    by (simp_all add: isinstance_Exception_def)
  have b1: "main_try shop_down ''secret'' ''secret'' start = Some (Inl HTTPError, listed_once)"
    by code_simp
  have d1: "download_stock shop_down start = Some (Inr feed_123, start)" by code_simp
  have m1: "market_main_try shop_down feed_123 ''secret'' ''secret'' ''secret'' ''secret''
       ''secret'' start = Some (Inl ReadTimeout, listed_once)" by code_simp
  have b2: "main_try shop_interrupted ''secret'' ''secret'' start
       = Some (Inl KeyboardInterrupt, listed_once)" by code_simp
  have d2: "download_stock shop_interrupted start = Some (Inr feed_123, start)" by code_simp
  have m2: "market_main_try shop_interrupted feed_123 ''secret'' ''secret'' ''secret'' ''secret''
       ''secret'' start = Some (Inl KeyboardInterrupt, listed_once)" by code_simp
  have b3: "main_try shop ''secret'' ''secret'' start = Some (Inr (), sent_stocks)" by code_simp
  have d3: "download_stock shop start = Some (Inr feed_123, start)" by code_simp
  have m3: "market_main_try shop feed_123 ''secret'' ''secret'' ''secret'' ''secret'' ''secret''
       start = Some (Inr (), market_sent_stocks)" by code_simp
  have d4: "download_stock shop_no_feed start = Some (Inl ConnectionError, start)" by code_simp
  have b4: "main_try shop_no_feed ''secret'' ''secret'' start
       = Some (Inl ConnectionError, listed_once)" by code_simp
  have p: "listed_once\<lparr>stdout := stdout start @ [printed_for HTTPError]\<rparr> = http_error_printed"
    "listed_once\<lparr>stdout := stdout start @ [printed_for ReadTimeout]\<rparr> = timeout_printed"
    "listed_once\<lparr>stdout := stdout start @ [printed_for ConnectionError]\<rparr> = connection_printed"
    by code_simp+
  have s1: "main shop_unset start = Some (Raised EnvError, start)"
    using top_level_catch [where sv = shop_unset and s = start, THEN conjunct1, THEN mp, OF u(1)] .
  have s2: "market_main shop_unset start = Some (Raised EnvError, start)"
    using top_level_catch [where sv = shop_unset and s = start, THEN conjunct2, THEN conjunct2,
        THEN conjunct2, THEN conjunct1, THEN mp, OF u(2)] .
  note t1 = top_level_catch [where sv = shop_down and s = start and ?s1.0 = listed_once
      and seller_token = "''secret''" and client_id = "''secret''"
      and market_token = "''secret''" and campaign_fbs_id = "''secret''"
      and campaign_dbs_id = "''secret''" and warehouse_fbs_id = "''secret''"
      and warehouse_dbs_id = "''secret''" and watch_remnants = feed_123 and ?s0.0 = start]
  note sel1 = t1 [where e = HTTPError, THEN conjunct2, THEN conjunct1, THEN mp,
      OF conjI [OF ev(2) ev(2)]]
  have "main shop_down start
      = Some (Returned, listed_once\<lparr>stdout := stdout start @ [printed_for HTTPError]\<rparr>)"
    using sel1 [THEN conjunct1, THEN mp, OF conjI [OF b1 i(1)]] .
  then have s3: "main shop_down start = Some (Returned, http_error_printed)" by (simp only: p)
  note mar1 = t1 [where e = ReadTimeout, THEN conjunct2, THEN conjunct2, THEN conjunct2,
      THEN conjunct2, THEN conjunct1, THEN mp,
      OF conjI [OF ev(2) conjI [OF ev(2) conjI [OF ev(2) conjI [OF ev(2) conjI [OF ev(2) d1]]]]]]
  have "market_main shop_down start
      = Some (Returned, listed_once\<lparr>stdout := stdout start @ [printed_for ReadTimeout]\<rparr>)"
    using mar1 [THEN conjunct1, THEN mp, OF conjI [OF m1 i(2)]] .
  then have s4: "market_main shop_down start = Some (Returned, timeout_printed)"
    by (simp only: p)
  note t2 = top_level_catch [where sv = shop_interrupted and s = start and ?s1.0 = listed_once
      and e = KeyboardInterrupt
      and seller_token = "''secret''" and client_id = "''secret''"
      and market_token = "''secret''" and campaign_fbs_id = "''secret''"
      and campaign_dbs_id = "''secret''" and warehouse_fbs_id = "''secret''"
      and warehouse_dbs_id = "''secret''" and watch_remnants = feed_123 and ?s0.0 = start]
  note sel2 = t2 [THEN conjunct2, THEN conjunct1, THEN mp, OF conjI [OF ev(3) ev(3)]]
  have s5: "main shop_interrupted start = Some (Raised KeyboardInterrupt, listed_once)"
    using sel2 [THEN conjunct2, THEN conjunct1, THEN mp, OF conjI [OF b2 i(4)]] .
  note mar2 = t2 [THEN conjunct2, THEN conjunct2, THEN conjunct2, THEN conjunct2, THEN conjunct1,
      THEN mp,
      OF conjI [OF ev(3) conjI [OF ev(3) conjI [OF ev(3) conjI [OF ev(3) conjI [OF ev(3) d2]]]]]]
  have s6: "market_main shop_interrupted start = Some (Raised KeyboardInterrupt, listed_once)"
    using mar2 [THEN conjunct2, THEN conjunct1, THEN mp, OF conjI [OF m2 i(4)]] .
  note t3 = top_level_catch [where sv = shop and s = start
      and seller_token = "''secret''" and client_id = "''secret''"
      and market_token = "''secret''" and campaign_fbs_id = "''secret''"
      and campaign_dbs_id = "''secret''" and warehouse_fbs_id = "''secret''"
      and warehouse_dbs_id = "''secret''" and watch_remnants = feed_123 and ?s0.0 = start]
  note sel3 = t3 [where ?s1.0 = sent_stocks, THEN conjunct2, THEN conjunct1, THEN mp,
      OF conjI [OF ev(1) ev(1)]]
  have s7: "main shop start = Some (Returned, sent_stocks)"
    using sel3 [THEN conjunct2, THEN conjunct2, THEN conjunct1, THEN mp, OF b3, THEN conjunct1] .
  note mar3 = t3 [where ?s1.0 = market_sent_stocks, THEN conjunct2, THEN conjunct2,
      THEN conjunct2, THEN conjunct2, THEN conjunct1, THEN mp,
      OF conjI [OF ev(1) conjI [OF ev(1) conjI [OF ev(1) conjI [OF ev(1) conjI [OF ev(1) d3]]]]]]
  have s8: "market_main shop start = Some (Returned, market_sent_stocks)"
    using mar3 [THEN conjunct2, THEN conjunct2, THEN conjunct1, THEN mp, OF m3, THEN conjunct1] .
  note t4 = top_level_catch [where sv = shop_no_feed and s = start and e = ConnectionError
      and ?s1.0 = listed_once
      and seller_token = "''secret''" and client_id = "''secret''"
      and market_token = "''secret''" and campaign_fbs_id = "''secret''"
      and campaign_dbs_id = "''secret''" and warehouse_fbs_id = "''secret''"
      and warehouse_dbs_id = "''secret''" and ?s0.0 = start]
  have s9: "market_main shop_no_feed start = Some (Raised ConnectionError, start)"
    using t4 [THEN conjunct2, THEN conjunct2, THEN conjunct2, THEN conjunct2, THEN conjunct2,
        THEN conjunct1, THEN mp,
      OF conjI [OF ev(4) conjI [OF ev(4) conjI [OF ev(4) conjI [OF ev(4) conjI [OF ev(4) d4]]]]]] .
  note sel4 = t4 [THEN conjunct2, THEN conjunct1, THEN mp, OF conjI [OF ev(4) ev(4)]]
  have "main shop_no_feed start
      = Some (Returned, listed_once\<lparr>stdout := stdout start @ [printed_for ConnectionError]\<rparr>)"
    using sel4 [THEN conjunct1, THEN mp, OF conjI [OF b4 i(3)]] .
  then have s10: "main shop_no_feed start = Some (Returned, connection_printed)"
    by (simp only: p)
  show ?thesis
    by (intro conjI)
       (rule s1 s2 b1 i(1) s3 d1 m1 i(2) s4 b2 s5 m2 s6 b3 s7 m3 s8 d4 s9 b4 s10)+
qed

section \<open>Termination of get_offer_ids\<close>

lemma product_list_loop_terminates:
  assumes "pages_fetched sv c t (Suc k) lid s = (pages, s')" "k < length pages"
    "page_total (pages ! k)
       = int (length acc) + int (length (concat (map page_items (take (Suc k) pages))))"
  shows "\<exists>j \<le> k.
      page_total (pages ! j)
        = int (length acc) + int (length (concat (map page_items (take (Suc j) pages))))
    \<and> (\<forall>i < j. page_total (pages ! i)
          \<noteq> int (length acc) + int (length (concat (map page_items (take (Suc i) pages)))))
    \<and> product_list_loop sv c t lid acc s
        = Some (Inr (acc @ concat (map page_items (take (Suc j) pages))),
                snd (pages_fetched sv c t (Suc j) lid s))"
  using assms
proof (induction k arbitrary: lid s acc pages)
  case 0
  from "0.prems"(1,2) obtain pg s1 where
    g: "get_product_list sv lid c t s = (Inr pg, s1)" and p: "pages = [pg]"
    by (auto split: prod.splits sum.splits)
  from "0.prems"(3) p have "page_total pg = int (length (acc @ page_items pg))" by simp
  then have "product_list_loop sv c t lid acc s = Some (Inr (acc @ page_items pg), s1)"
    using g by (subst product_list_loop.simps) (simp add: Let_def)
  then show ?case using g p "0.prems"(3) by simp
next
  case (Suc k)
  from Suc.prems(1,2) obtain pg s1 pages' where
    g: "get_product_list sv lid c t s = (Inr pg, s1)" and
    r: "pages_fetched sv c t (Suc k) (page_last_id pg) s1 = (pages', s')" and
    p: "pages = pg # pages'"
    by (auto split: prod.splits sum.splits)
  show ?case
  proof (cases "page_total pg = int (length (acc @ page_items pg))")
    case True
    then have "product_list_loop sv c t lid acc s = Some (Inr (acc @ page_items pg), s1)"
      using g by (subst product_list_loop.simps) (simp add: Let_def)
    then show ?thesis using g p True by (intro exI [of _ 0]) simp
  next
    case False
    have l: "k < length pages'" using Suc.prems(2) p by simp
    have t: "page_total (pages' ! k)
        = int (length (acc @ page_items pg))
          + int (length (concat (map page_items (take (Suc k) pages'))))"
      using Suc.prems(3) p by simp
    from Suc.IH [OF r l t] obtain j where
      j: "j \<le> k"
      "page_total (pages' ! j) = int (length (acc @ page_items pg))
          + int (length (concat (map page_items (take (Suc j) pages'))))"
      "\<forall>i < j. page_total (pages' ! i) \<noteq> int (length (acc @ page_items pg))
          + int (length (concat (map page_items (take (Suc i) pages'))))"
      "product_list_loop sv c t (page_last_id pg) (acc @ page_items pg) s1
        = Some (Inr ((acc @ page_items pg) @ concat (map page_items (take (Suc j) pages'))),
                snd (pages_fetched sv c t (Suc j) (page_last_id pg) s1))"
      by blast
    have a: "page_total (pages ! Suc j)
        = int (length acc) + int (length (concat (map page_items (take (Suc (Suc j)) pages))))"
      using j(2) p by simp
    have b: "page_total (pages ! i)
          \<noteq> int (length acc) + int (length (concat (map page_items (take (Suc i) pages))))"
      if "i < Suc j" for i
    proof (cases i)
      case 0
      then show ?thesis using False p by simp
    next
      case (Suc i')
      then have "i' < j" using that by simp
      with j(3) have "page_total (pages' ! i') \<noteq> int (length (acc @ page_items pg))
          + int (length (concat (map page_items (take (Suc i') pages'))))" by blast
      then show ?thesis using Suc p by (simp add: add.assoc)
    qed
    have "product_list_loop sv c t lid acc s
        = product_list_loop sv c t (page_last_id pg) (acc @ page_items pg) s1"
      using g False by (subst product_list_loop.simps) (simp add: Let_def)
    also have "\<dots> = Some (Inr (acc @ concat (map page_items (take (Suc (Suc j)) pages))),
                snd (pages_fetched sv c t (Suc (Suc j)) lid s))"
      using j(4) p g by (simp split: prod.splits)
    finally show ?thesis using a b j(1) by (intro exI [of _ "Suc j"]) blast
  qed
qed

lemma market_product_list_loop_step:
  "market_product_list_loop sv c t page acc s =
     (case market_get_product_list sv page c t s of
        (Inl e, s') \<Rightarrow> Some (Inl e, s')
      | (Inr pg, s') \<Rightarrow>
          if next_page pg = [] then Some (Inr (acc @ offerMappingEntries pg), s')
          else market_product_list_loop sv c t (next_page pg) (acc @ offerMappingEntries pg) s')"
  by (subst market_product_list_loop.simps)
     (auto simp: next_page_def Let_def split: prod.splits sum.splits option.splits)

lemma market_product_list_loop_terminates:
  assumes "market_pages_fetched sv c t (Suc k) page s = (pages, s')" "k < length pages"
    "next_page (pages ! k) = []"
  shows "\<exists>j \<le> k.
      next_page (pages ! j) = []
    \<and> (\<forall>i < j. next_page (pages ! i) \<noteq> [])
    \<and> market_product_list_loop sv c t page acc s
        = Some (Inr (acc @ concat (map offerMappingEntries (take (Suc j) pages))),
                snd (market_pages_fetched sv c t (Suc j) page s))"
  using assms
proof (induction k arbitrary: page s acc pages)
  case 0
  from "0.prems"(1,2) obtain pg s1 where
    g: "market_get_product_list sv page c t s = (Inr pg, s1)" and p: "pages = [pg]"
    by (auto split: prod.splits sum.splits)
  from "0.prems"(3) p have "next_page pg = []" by simp
  then have "market_product_list_loop sv c t page acc s
      = Some (Inr (acc @ offerMappingEntries pg), s1)"
    using g by (subst market_product_list_loop_step) simp
  then show ?case using g p "0.prems"(3) by simp
next
  case (Suc k)
  from Suc.prems(1,2) obtain pg s1 pages' where
    g: "market_get_product_list sv page c t s = (Inr pg, s1)" and
    r: "market_pages_fetched sv c t (Suc k) (next_page pg) s1 = (pages', s')" and
    p: "pages = pg # pages'"
    by (auto split: prod.splits sum.splits)
  show ?case
  proof (cases "next_page pg = []")
    case True
    then have "market_product_list_loop sv c t page acc s
        = Some (Inr (acc @ offerMappingEntries pg), s1)"
      using g by (subst market_product_list_loop_step) simp
    then show ?thesis using g p True by (intro exI [of _ 0]) simp
  next
    case False
    have l: "k < length pages'" using Suc.prems(2) p by simp
    have t: "next_page (pages' ! k) = []" using Suc.prems(3) p by simp
    from Suc.IH [OF r l t, of "acc @ offerMappingEntries pg"] obtain j where
      j: "j \<le> k" "next_page (pages' ! j) = []" "\<forall>i < j. next_page (pages' ! i) \<noteq> []"
      "market_product_list_loop sv c t (next_page pg) (acc @ offerMappingEntries pg) s1
        = Some (Inr ((acc @ offerMappingEntries pg)
                       @ concat (map offerMappingEntries (take (Suc j) pages'))),
                snd (market_pages_fetched sv c t (Suc j) (next_page pg) s1))"
      by blast
    have a: "next_page (pages ! Suc j) = []" using j(2) p by simp
    have b: "next_page (pages ! i) \<noteq> []" if "i < Suc j" for i
    proof (cases i)
      case 0
      then show ?thesis using False p by simp
    next
      case (Suc i')
      then have "i' < j" using that by simp
      with j(3) show ?thesis using Suc p by simp
    qed
    have "market_product_list_loop sv c t page acc s
        = market_product_list_loop sv c t (next_page pg) (acc @ offerMappingEntries pg) s1"
      using g False by (subst market_product_list_loop_step) simp
    also have "\<dots> = Some (Inr (acc @ concat (map offerMappingEntries (take (Suc (Suc j)) pages))),
                snd (market_pages_fetched sv c t (Suc (Suc j)) page s))"
      using j(4) p g by (simp split: prod.splits)
    finally show ?thesis using a b j(1) by (intro exI [of _ "Suc j"]) blast
  qed
qed

text \<open>
  Claim C7. If the listing calls answer the first \<open>k + 1\<close> requests of \<open>get_offer_ids\<close>
  without an exception and answer number \<open>k\<close> signals completion (in seller.py a total
  equal to the number of items fetched so far, in market.py a next-page token that is
  absent or empty), then \<open>get_offer_ids\<close> returns: it stops at the first answer \<open>j\<close> that
  signals completion, after \<open>j + 1\<close> requests, with the identifiers of the pages up to
  that one, in order.
\<close>

theorem get_offer_ids_terminates:
  "(pages_fetched sv client_id seller_token (Suc k) [] s = (pages, s') \<and> seller_complete pages k
      \<longrightarrow> (\<exists>j \<le> k. seller_complete pages j \<and> (\<forall>i < j. \<not> seller_complete pages i)
            \<and> get_offer_ids sv client_id seller_token s
               = Some (Inr (map product_offer_id (concat (map page_items (take (Suc j) pages)))),
                       snd (pages_fetched sv client_id seller_token (Suc j) [] s))))
   \<and> (market_pages_fetched sv campaign_id market_token (Suc k) [] s = (mpages, s'')
        \<and> market_complete mpages k
      \<longrightarrow> (\<exists>j \<le> k. market_complete mpages j \<and> (\<forall>i < j. \<not> market_complete mpages i)
            \<and> market_get_offer_ids sv campaign_id market_token s
               = Some (Inr (map shopSku (concat (map offerMappingEntries (take (Suc j) mpages)))),
                       snd (market_pages_fetched sv campaign_id market_token (Suc j) [] s))))"
proof (intro conjI impI)
  assume a: "pages_fetched sv client_id seller_token (Suc k) [] s = (pages, s') \<and> seller_complete pages k"
  then have "k < length pages"
    "page_total (pages ! k)
       = int (length ([] :: product list))
         + int (length (concat (map page_items (take (Suc k) pages))))"
    by (simp_all add: seller_complete_def)
  from product_list_loop_terminates [OF conjunct1 [OF a] this] obtain j where
    j: "j \<le> k"
    "page_total (pages ! j) = int (length (concat (map page_items (take (Suc j) pages))))"
    "\<forall>i < j. page_total (pages ! i) \<noteq> int (length (concat (map page_items (take (Suc i) pages))))"
    "product_list_loop sv client_id seller_token [] [] s
        = Some (Inr (concat (map page_items (take (Suc j) pages))),
                snd (pages_fetched sv client_id seller_token (Suc j) [] s))"
    by auto
  have "seller_complete pages j" using j(1,2) \<open>k < length pages\<close> by (simp add: seller_complete_def)
  moreover have "\<forall>i < j. \<not> seller_complete pages i" using j(3) by (simp add: seller_complete_def)
  moreover have "get_offer_ids sv client_id seller_token s
               = Some (Inr (map product_offer_id (concat (map page_items (take (Suc j) pages)))),
                       snd (pages_fetched sv client_id seller_token (Suc j) [] s))"
    using j(4) by (simp add: get_offer_ids_def then_do_def result_def)
  ultimately show "\<exists>j \<le> k. seller_complete pages j \<and> (\<forall>i < j. \<not> seller_complete pages i)
            \<and> get_offer_ids sv client_id seller_token s
               = Some (Inr (map product_offer_id (concat (map page_items (take (Suc j) pages)))),
                       snd (pages_fetched sv client_id seller_token (Suc j) [] s))"
    using j(1) by blast
next
  assume a: "market_pages_fetched sv campaign_id market_token (Suc k) [] s = (mpages, s'')
        \<and> market_complete mpages k"
  then have "k < length mpages" "next_page (mpages ! k) = []"
    by (simp_all add: market_complete_def)
  from market_product_list_loop_terminates [OF conjunct1 [OF a] this, of "[]"] obtain j where
    j: "j \<le> k" "next_page (mpages ! j) = []" "\<forall>i < j. next_page (mpages ! i) \<noteq> []"
    "market_product_list_loop sv campaign_id market_token [] [] s
        = Some (Inr (concat (map offerMappingEntries (take (Suc j) mpages))),
                snd (market_pages_fetched sv campaign_id market_token (Suc j) [] s))"
    by auto
  have "market_complete mpages j" using j(1,2) \<open>k < length mpages\<close> by (simp add: market_complete_def)
  moreover have "\<forall>i < j. \<not> market_complete mpages i" using j(3) by (simp add: market_complete_def)
  moreover have "market_get_offer_ids sv campaign_id market_token s
               = Some (Inr (map shopSku (concat (map offerMappingEntries (take (Suc j) mpages)))),
                       snd (market_pages_fetched sv campaign_id market_token (Suc j) [] s))"
    using j(4) by (simp add: market_get_offer_ids_def then_do_def result_def)
  ultimately show "\<exists>j \<le> k. market_complete mpages j \<and> (\<forall>i < j. \<not> market_complete mpages i)
            \<and> market_get_offer_ids sv campaign_id market_token s
               = Some (Inr (map shopSku (concat (map offerMappingEntries (take (Suc j) mpages)))),
                       snd (market_pages_fetched sv campaign_id market_token (Suc j) [] s))"
    using j(1) by blast
qed

theorem get_offer_ids_terminates_witness:
  "pages_fetched shop_paged ''c'' ''t'' (Suc 1) [] start = ([page_123, page_456], listed_twice)
   \<and> seller_complete [page_123, page_456] 1
   \<and> (\<exists>j \<le> 1. get_offer_ids shop_paged ''c'' ''t'' start
         = Some (Inr (map product_offer_id
                        (concat (map page_items (take (Suc j) [page_123, page_456])))),
                 snd (pages_fetched shop_paged ''c'' ''t'' (Suc j) [] start)))
   \<and> get_offer_ids shop_paged ''c'' ''t'' start = Some (Inr [''123'', ''456''], listed_twice)
   \<and> market_pages_fetched shop_paged ''c'' ''t'' (Suc 1) [] start
       = ([market_page_123, market_page_456], listed_twice)
   \<and> market_complete [market_page_123, market_page_456] 1
   \<and> (\<exists>j \<le> 1. market_get_offer_ids shop_paged ''c'' ''t'' start
         = Some (Inr (map shopSku
                        (concat (map offerMappingEntries
                                   (take (Suc j) [market_page_123, market_page_456])))),
                 snd (market_pages_fetched shop_paged ''c'' ''t'' (Suc j) [] start)))
   \<and> market_get_offer_ids shop_paged ''c'' ''t'' start = Some (Inr [''123'', ''456''], listed_twice)"
proof -
  have a: "pages_fetched shop_paged ''c'' ''t'' (Suc 1) [] start
      = ([page_123, page_456], listed_twice)" by code_simp
  have b: "seller_complete [page_123, page_456] 1" by code_simp
  have c: "get_offer_ids shop_paged ''c'' ''t'' start = Some (Inr [''123'', ''456''], listed_twice)"
    by code_simp
  have d: "market_pages_fetched shop_paged ''c'' ''t'' (Suc 1) [] start
       = ([market_page_123, market_page_456], listed_twice)" by code_simp
  have e: "market_complete [market_page_123, market_page_456] 1" by code_simp
  have f: "market_get_offer_ids shop_paged ''c'' ''t'' start
      = Some (Inr [''123'', ''456''], listed_twice)" by code_simp
  note t = get_offer_ids_terminates [of shop_paged "''c''" "''t''" 1 start
      "[page_123, page_456]" listed_twice "''c''" "''t''"
      "[market_page_123, market_page_456]" listed_twice]
  from t a b have s1: "\<exists>j \<le> 1. get_offer_ids shop_paged ''c'' ''t'' start
         = Some (Inr (map product_offer_id
                        (concat (map page_items (take (Suc j) [page_123, page_456])))),
                 snd (pages_fetched shop_paged ''c'' ''t'' (Suc j) [] start))"
    by blast
  from t d e have s2: "\<exists>j \<le> 1. market_get_offer_ids shop_paged ''c'' ''t'' start
         = Some (Inr (map shopSku
                        (concat (map offerMappingEntries
                                   (take (Suc j) [market_page_123, market_page_456])))),
                 snd (market_pages_fetched shop_paged ''c'' ''t'' (Suc j) [] start))"
    by blast
  show ?thesis using a b c d e f s1 s2 by (intro conjI)
qed

end
